theory Spec2Isabelle
  imports Complex_Main
begin

section \<open>Data model\<close>

text \<open>
  The layout engine and the text fit estimator live in
  \<^verbatim>\<open>src/components/UniformBadgeVisualizer.tsx\<close>. The two reference tables
  (\<^verbatim>\<open>slots.json\<close>, \<^verbatim>\<open>badges.json\<close>) are imported by that file; every function
  below takes them as parameters, so each result holds for any pair of tables.

  Modelling conventions.
  \<^item> A JavaScript number is modelled as an exact \<open>real\<close>: no rounding, no overflow. The one
    place where finite inputs produce a non-finite value (a quotient by a zero text width
    in \<open>fitFontSize\<close>) is modelled explicitly.
  \<^item> A table is a plain object whose own properties are the members of the JSON file: a
    partial map from keys to entries. A lookup \<^verbatim>\<open>table[key]\<close> that finds no own property
    continues in \<^verbatim>\<open>Object.prototype\<close> (see \<open>getProp\<close>), which is taken as the language
    defines it.
  \<^item> Every entry of the item table has the fields \<^verbatim>\<open>label, category, slot, color\<close> and
    every entry of the slot table the fields \<^verbatim>\<open>x, y, w, h, z\<close>, as the types
    \<^verbatim>\<open>Badge\<close> and \<^verbatim>\<open>Slot\<close> of the source say.
  \<^item> The fields \<^verbatim>\<open>x, y, w, h, z\<close> carry a prefix (\<open>slot_\<close>, \<open>p_\<close>) because the
    two object types share them; the fields of a badge carry \<open>b_\<close>.
\<close>

record Slot =
  slot_x :: real
  slot_y :: real
  slot_w :: real
  slot_h :: real
  slot_z :: real

record Badge =
  b_label :: string
  b_category :: string
  b_slot :: string
  b_color :: string
  b_asset :: "string option"

text \<open>
  A placement. The fields that line 246 reads from \<^verbatim>\<open>spec\<close> are \<^verbatim>\<open>undefined\<close> (\<open>None\<close>)
  when \<^verbatim>\<open>spec\<close> is not an entry of the item table but a member of \<^verbatim>\<open>Object.prototype\<close>.
\<close>

record Placed =
  p_id :: string
  p_label :: "string option"
  p_slot :: "string option"
  p_x :: real
  p_y :: real
  p_w :: real
  p_h :: real
  p_z :: real
  p_color :: "string option"
  p_asset :: "string option"

type_synonym Slots = "string \<rightharpoonup> Slot"
type_synonym Badges = "string \<rightharpoonup> Badge"

text \<open>
  \<^verbatim>\<open>bySlot\<close> is an object used as an insertion-ordered dictionary: an association list
  of its own properties, with distinct keys, the newest key last.
\<close>

type_synonym BySlot = "(string \<times> Placed list) list"

text \<open>
  What can go wrong at run time in \<^verbatim>\<open>computeLayout\<close>: calling \<^verbatim>\<open>push\<close> on a value that
  has no such method, or reading a field of an undefined slot box (a \<^verbatim>\<open>TypeError\<close>), and
  pushing \<^verbatim>\<open>items[0]\<close> of an empty group, which would store \<^verbatim>\<open>undefined\<close> in the
  placement list.
\<close>

datatype error = TypeError | UndefinedItem

subsection \<open>Property lookup on a plain object\<close>

text \<open>
  The property names that every plain object inherits from \<^verbatim>\<open>Object.prototype\<close>. Each
  of them evaluates to a function, \<^verbatim>\<open>__proto__\<close> to the prototype object itself: a
  truthy value without the fields \<^verbatim>\<open>label, slot, color, asset\<close> and without a method
  \<^verbatim>\<open>push\<close>.
\<close>

definition protoNames :: "string list" where
  "protoNames =
     [''constructor'', ''hasOwnProperty'', ''isPrototypeOf'', ''propertyIsEnumerable'',
      ''toLocaleString'', ''toString'', ''valueOf'', ''__proto__'',
      ''__defineGetter__'', ''__defineSetter__'', ''__lookupGetter__'', ''__lookupSetter__'']"

text \<open>
  \<^verbatim>\<open>obj[key]\<close>: the own property, else the inherited member, else \<^verbatim>\<open>undefined\<close>.
\<close>

datatype 'a lookup = Own 'a | Inherited | Missing

definition getProp :: "(string \<rightharpoonup> 'a) \<Rightarrow> string \<Rightarrow> 'a lookup" where
  "getProp obj key =
     (case obj key of
        Some v \<Rightarrow> Own v
      | None \<Rightarrow> if key \<in> set protoNames then Inherited else Missing)"

text \<open>A value used as a property key: \<^verbatim>\<open>undefined\<close> becomes the string \<^verbatim>\<open>"undefined"\<close>.\<close>

definition propertyKey :: "string option \<Rightarrow> string" where
  "propertyKey v = (case v of None \<Rightarrow> ''undefined'' | Some s \<Rightarrow> s)"

text \<open>\<^verbatim>\<open>spec.field\<close> for the truthy value \<^verbatim>\<open>spec = badges[id]\<close>.\<close>

definition specField :: "(Badge \<Rightarrow> string) \<Rightarrow> Badge lookup \<Rightarrow> string option" where
  "specField field spec = (case spec of Own b \<Rightarrow> Some (field b) | Inherited \<Rightarrow> None | Missing \<Rightarrow> None)"

definition specAsset :: "Badge lookup \<Rightarrow> string option" where
  "specAsset spec = (case spec of Own b \<Rightarrow> b_asset b | Inherited \<Rightarrow> None | Missing \<Rightarrow> None)"

section \<open>The text fit estimator\<close>

text \<open>
  \<^verbatim>\<open>(availableW / measured) * BASE\<close>: the dividend is at least 10, so a zero divisor
  yields \<^verbatim>\<open>Infinity\<close>, which stays \<^verbatim>\<open>Infinity\<close> when multiplied by 100.
\<close>

datatype fontBound = Finite real | Infinity

fun minBound :: "real \<Rightarrow> fontBound \<Rightarrow> real" where
  "minBound a (Finite b) = min a b"
| "minBound a Infinity = a"

definition measuredWidth :: "(string \<Rightarrow> real) \<Rightarrow> string \<Rightarrow> real" where
  "measuredWidth measureText label =
     (if measureText label \<noteq> 0 then measureText label
      else 100 * 0.6 * real (length label))"

definition fontByWidth :: "real \<Rightarrow> real \<Rightarrow> fontBound" where
  "fontByWidth availableW measured =
     (if measured = 0 then Infinity else Finite ((availableW / measured) * 100))"

text \<open>
  \<open>ctx\<close> is the text-measurement oracle: \<open>None\<close> when no canvas context is available,
  otherwise the width of a string at the 100px reference font (weight and family only
  select the font the oracle measures with). \<open>padding\<close> and \<open>maxHeightRatio\<close> are the
  optional fields of \<^verbatim>\<open>opts\<close>.
\<close>

text \<open>\<^verbatim>\<open>opts?.field ?? dflt\<close>\<close>

definition nullish :: "'a option \<Rightarrow> 'a \<Rightarrow> 'a" where
  "nullish opt dflt = (case opt of None \<Rightarrow> dflt | Some v \<Rightarrow> v)"

definition fitFontSize ::
  "(string \<Rightarrow> real) option \<Rightarrow> string \<Rightarrow> real \<Rightarrow> real \<Rightarrow> real option \<Rightarrow> real option \<Rightarrow> int" where
  "fitFontSize ctx label boxW boxH optPadding optMaxHeightRatio =
     (let padding = nullish optPadding 8;
          maxHeightRatio = nullish optMaxHeightRatio 0.7;
          maxFontByHeight = max 10 (boxH * maxHeightRatio)
      in case ctx of
           None \<Rightarrow> \<lfloor>min 18 maxFontByHeight\<rfloor>
         | Some measureText \<Rightarrow>
             (let measured = measuredWidth measureText label;
                  availableW = max 10 (boxW - padding * 2)
              in max 10 \<lfloor>minBound maxFontByHeight (fontByWidth availableW measured)\<rfloor>))"

section \<open>The layout engine\<close>

subsection \<open>Grouping by slot\<close>

text \<open>Line 246, for a truthy \<^verbatim>\<open>spec\<close> and a box that is an entry of the slot table.\<close>

definition mkEntry :: "string \<Rightarrow> Badge lookup \<Rightarrow> Slot \<Rightarrow> Placed" where
  "mkEntry i spec box =
     \<lparr>p_id = i, p_label = specField b_label spec, p_slot = specField b_slot spec,
      p_x = slot_x box, p_y = slot_y box, p_w = slot_w box, p_h = slot_h box,
      p_z = slot_z box, p_color = specField b_color spec, p_asset = specAsset spec\<rparr>"

text \<open>
  \<^verbatim>\<open>bySlot[slotKey] ??= []; bySlot[slotKey].push(entry)\<close>. An own group receives the
  entry. Without an own group, \<^verbatim>\<open>bySlot[slotKey]\<close> is \<^verbatim>\<open>undefined\<close> and a new group is
  created, unless \<open>slotKey\<close> is a name that \<^verbatim>\<open>bySlot = {}\<close> inherits: then \<^verbatim>\<open>??=\<close>
  assigns nothing and the call of \<^verbatim>\<open>push\<close> throws.
\<close>

fun pushEntry :: "BySlot \<Rightarrow> string \<Rightarrow> Placed \<Rightarrow> error + BySlot" where
  "pushEntry [] slotKey entry =
     (if slotKey \<in> set protoNames then Inl TypeError else Inr [(slotKey, [entry])])"
| "pushEntry ((k, items) # rest) slotKey entry =
     (if k = slotKey then Inr ((k, items @ [entry]) # rest)
      else (case pushEntry rest slotKey entry of
              Inl e \<Rightarrow> Inl e
            | Inr rest' \<Rightarrow> Inr ((k, items) # rest')))"

text \<open>
  The first loop of \<^verbatim>\<open>computeLayout\<close>. A \<^verbatim>\<open>continue\<close> is taken only when the lookup
  yields \<^verbatim>\<open>undefined\<close>. When \<^verbatim>\<open>slots[slotKey]\<close> is an inherited member, \<open>slotKey\<close> is an
  inherited name, the entry is built from it, and line 248 throws as in \<open>pushEntry\<close>.
\<close>

fun groupBySlot :: "Badges \<Rightarrow> Slots \<Rightarrow> string list \<Rightarrow> BySlot \<Rightarrow> error + BySlot" where
  "groupBySlot badges slots [] bySlot = Inr bySlot"
| "groupBySlot badges slots (i # ids) bySlot =
     (case getProp badges i of
        Missing \<Rightarrow> groupBySlot badges slots ids bySlot
      | spec \<Rightarrow>
          (let slotKey = propertyKey (specField b_slot spec)
           in case getProp slots slotKey of
                Missing \<Rightarrow> groupBySlot badges slots ids bySlot
              | Inherited \<Rightarrow> Inl TypeError
              | Own box \<Rightarrow>
                  (case pushEntry bySlot slotKey (mkEntry i spec box) of
                     Inl e \<Rightarrow> Inl e
                   | Inr bySlot' \<Rightarrow> groupBySlot badges slots ids bySlot')))"

subsection \<open>Iteration order of \<^verbatim>\<open>Object.entries\<close>\<close>

text \<open>
  \<^verbatim>\<open>Object.entries\<close> lists the keys that are array indices first (the canonical decimal
  numerals of \<open>0 .. 2^32 - 2\<close>), in ascending numeric order, and then every other string
  key in insertion order.
\<close>

definition isDigit :: "char \<Rightarrow> bool" where
  "isDigit c = (48 \<le> (of_char c :: int) \<and> (of_char c :: int) \<le> 57)"

fun decimalValue :: "int \<Rightarrow> string \<Rightarrow> int" where
  "decimalValue acc [] = acc"
| "decimalValue acc (c # cs) = decimalValue (10 * acc + ((of_char c :: int) - 48)) cs"

definition isArrayIndex :: "string \<Rightarrow> bool" where
  "isArrayIndex s =
     (s \<noteq> [] \<and> list_all isDigit s \<and> (s = ''0'' \<or> hd s \<noteq> CHR ''0'')
      \<and> decimalValue 0 s < 4294967295)"

definition objectEntries :: "(string \<times> 'a) list \<Rightarrow> (string \<times> 'a) list" where
  "objectEntries props =
     sort_key (\<lambda>kv. decimalValue 0 (fst kv)) (filter (\<lambda>kv. isArrayIndex (fst kv)) props)
     @ filter (\<lambda>kv. \<not> isArrayIndex (fst kv)) props"

subsection \<open>Arrangement rules\<close>

text \<open>\<^verbatim>\<open>items.forEach((it, i) => ...)\<close> followed by \<^verbatim>\<open>placed.push(it)\<close>.\<close>

definition forEachIndexed :: "(Placed \<Rightarrow> nat \<Rightarrow> Placed) \<Rightarrow> Placed list \<Rightarrow> Placed list" where
  "forEachIndexed f items = map (\<lambda>(i, it). f it i) (enumerate 0 items)"

text \<open>
  The pyramid rule (lines 254 to 290) for a box of the slot table: the placements pushed
  to \<^verbatim>\<open>placed\<close> and the strings pushed to \<^verbatim>\<open>warnings\<close>, in the order of the pushes.
\<close>

definition pyramidRule :: "Slot \<Rightarrow> string \<Rightarrow> Placed list \<Rightarrow> Placed list \<times> string list" where
  "pyramidRule box slotKey items =
     (let n = min 3 (length items);
          warnings = (if length items > 3
                      then [slotKey @ '' allows max 3; extra selections ignored.'']
                      else []);
          gap = 8;
          tileH = min (slot_h box) 60;
          tileW = min (slot_w box) 90
      in if n = 1 then
           ([(items ! 0)\<lparr>p_x := slot_x box + (slot_w box - tileW) / 2,
                         p_y := slot_y box, p_w := tileW, p_h := tileH\<rparr>],
            warnings)
         else if n = 2 then
           (let totalW = tileW * 2 + gap;
                startX = slot_x box + (slot_w box - totalW) / 2
            in (forEachIndexed
                  (\<lambda>it i. it\<lparr>p_x := startX + real i * (tileW + gap),
                              p_y := slot_y box, p_w := tileW, p_h := tileH\<rparr>)
                  (take 2 items),
                warnings))
         else if n \<ge> 3 then
           (let top = (items ! 0)\<lparr>p_x := slot_x box + (slot_w box - tileW) / 2,
                                   p_y := slot_y box, p_w := tileW, p_h := tileH\<rparr>;
                totalW = tileW * 2 + gap;
                startX = slot_x box + (slot_w box - totalW) / 2
            in (top #
                forEachIndexed
                  (\<lambda>it i. it\<lparr>p_x := startX + real i * (tileW + gap),
                              p_y := slot_y box + tileH + gap,
                              p_w := tileW, p_h := tileH\<rparr>)
                  (take 2 (drop 1 items)),
                warnings))
         else ([], warnings))"

text \<open>The medal row (lines 292 to 303).\<close>

definition medalRule :: "Slot \<Rightarrow> Placed list \<Rightarrow> Placed list" where
  "medalRule box items =
     (let gap = 10;
          tileH = min (slot_h box) 400;
          tileW = 50;
          n = real (length items);
          totalW = n * tileW + (n - 1) * gap;
          startX = slot_x box + (slot_w box - totalW) / 2
      in forEachIndexed
           (\<lambda>it i. it\<lparr>p_x := startX + real i * (tileW + gap),
                       p_y := slot_y box, p_w := tileW, p_h := tileH\<rparr>)
           items)"

text \<open>The vertical stack (lines 305 to 313).\<close>

definition stackRule :: "Slot \<Rightarrow> Placed list \<Rightarrow> Placed list" where
  "stackRule box items =
     (let gap = 8;
          tileH = 36
      in forEachIndexed
           (\<lambda>it i. it\<lparr>p_x := slot_x box,
                       p_y := slot_y box + real i * (tileH + gap),
                       p_w := slot_w box, p_h := tileH\<rparr>)
           items)"

text \<open>
  The body of the second loop for one entry \<open>(slotKey, items)\<close> of \<^verbatim>\<open>bySlot\<close>. \<open>box\<close> is
  \<^verbatim>\<open>slots[slotKey]\<close>; it is read only in the branches of the four named slots, none of
  which is an inherited name, so there it is an entry of the slot table or \<^verbatim>\<open>undefined\<close>
  (\<open>None\<close>), and reading a field of \<^verbatim>\<open>undefined\<close> throws. The last branch does not read
  the box.
\<close>

definition arrange ::
  "Slot option \<Rightarrow> string \<Rightarrow> Placed list \<Rightarrow> error + (Placed list \<times> string list)" where
  "arrange box slotKey items =
     (if slotKey = ''safBadges'' \<or> slotKey = ''foreignBadges'' then
        (case box of
           None \<Rightarrow> Inl TypeError
         | Some b \<Rightarrow> Inr (pyramidRule b slotKey items))
      else if slotKey = ''medalsBelowRightPocket'' then
        (case box of
           None \<Rightarrow> Inl TypeError
         | Some b \<Rightarrow> Inr (medalRule b items, []))
      else if slotKey = ''rightSleeveProficiency'' then
        (case box of
           None \<Rightarrow> if items = [] then Inr ([], []) else Inl TypeError
         | Some b \<Rightarrow> Inr (stackRule b items, []))
      else
        (case items of
           [] \<Rightarrow> Inl UndefinedItem
         | it # _ \<Rightarrow>
             Inr ([it],
                  if length items > 1
                  then [slotKey @ '': multiple selections; only first shown.'']
                  else [])))"

text \<open>The second loop, over the entries of \<^verbatim>\<open>bySlot\<close>, threading \<^verbatim>\<open>placed\<close> and \<^verbatim>\<open>warnings\<close>.\<close>

fun arrangeAll ::
  "Slots \<Rightarrow> BySlot \<Rightarrow> Placed list \<Rightarrow> string list \<Rightarrow> error + (Placed list \<times> string list)" where
  "arrangeAll slots [] placed warnings = Inr (placed, warnings)"
| "arrangeAll slots ((slotKey, items) # rest) placed warnings =
     (case arrange (slots slotKey) slotKey items of
        Inl e \<Rightarrow> Inl e
      | Inr (ps, ws) \<Rightarrow> arrangeAll slots rest (placed @ ps) (warnings @ ws))"

definition computeLayout :: "Badges \<Rightarrow> Slots \<Rightarrow> string list \<Rightarrow> error + (Placed list \<times> string list)" where
  "computeLayout badges slots selectedIds =
     (case groupBySlot badges slots selectedIds [] of
        Inl e \<Rightarrow> Inl e
      | Inr bySlot \<Rightarrow> arrangeAll slots (objectEntries bySlot) [] [])"

section \<open>Vocabulary of the properties\<close>

text \<open>
  The run throws on an identifier whose truthy \<^verbatim>\<open>spec\<close> names an inherited property name
  as its slot: \<^verbatim>\<open>slots[slotKey]\<close> is then truthy (an entry of the table or the inherited
  member) and line 248 throws.
\<close>

definition throwsOn :: "Badges \<Rightarrow> string \<Rightarrow> bool" where
  "throwsOn badges i =
     (case getProp badges i of
        Missing \<Rightarrow> False
      | spec \<Rightarrow> propertyKey (specField b_slot spec) \<in> set protoNames)"

text \<open>The selections on which the first loop runs to its end.\<close>

definition completes :: "Badges \<Rightarrow> string list \<Rightarrow> bool" where
  "completes badges ids = list_all (\<lambda>i. \<not> throwsOn badges i) ids"

text \<open>
  The entry that the first loop files for an identifier, if any: the one line 246 builds
  when both lookups are truthy.
\<close>

definition entryOf :: "Badges \<Rightarrow> Slots \<Rightarrow> string \<Rightarrow> Placed option" where
  "entryOf badges slots i =
     (case getProp badges i of
        Missing \<Rightarrow> None
      | spec \<Rightarrow>
          (case slots (propertyKey (specField b_slot spec)) of
             None \<Rightarrow> None
           | Some box \<Rightarrow> Some (mkEntry i spec box)))"

text \<open>The entries filed for a selection, in selection order, one per occurrence.\<close>

definition filed :: "Badges \<Rightarrow> Slots \<Rightarrow> string list \<Rightarrow> Placed list" where
  "filed badges slots ids = List.map_filter (entryOf badges slots) ids"

text \<open>The key of \<^verbatim>\<open>bySlot\<close> under which an entry is filed.\<close>

definition entryKey :: "Placed \<Rightarrow> string" where
  "entryKey e = propertyKey (p_slot e)"

text \<open>
  The entries routed to slot \<open>k\<close>, in selection order. For a slot identifier other than
  \<^verbatim>\<open>"undefined"\<close> these are the resolvable items of the selection whose slot is \<open>k\<close>.
\<close>

definition routed :: "Badges \<Rightarrow> Slots \<Rightarrow> string list \<Rightarrow> string \<Rightarrow> Placed list" where
  "routed badges slots ids k = filter (\<lambda>e. entryKey e = k) (filed badges slots ids)"

text \<open>The elements of a list in the order of their first occurrence.\<close>

definition firstOccurrences :: "'a list \<Rightarrow> 'a list" where
  "firstOccurrences xs = rev (remdups (rev xs))"

definition occupiedSlots :: "Badges \<Rightarrow> Slots \<Rightarrow> string list \<Rightarrow> string list" where
  "occupiedSlots badges slots ids = firstOccurrences (map entryKey (filed badges slots ids))"

text \<open>The order in which \<^verbatim>\<open>Object.entries\<close> visits keys inserted in the order \<open>ks\<close>.\<close>

definition keyOrder :: "string list \<Rightarrow> string list" where
  "keyOrder ks = sort_key (decimalValue 0) (filter isArrayIndex ks) @ filter (\<lambda>k. \<not> isArrayIndex k) ks"

text \<open>
  What the arrangement rule of slot \<open>k\<close> yields on the entries routed to it: its
  placements and its warnings. A slot with no entry yields nothing.
\<close>

definition slotOutcome :: "Badges \<Rightarrow> Slots \<Rightarrow> string list \<Rightarrow> string \<Rightarrow> Placed list \<times> string list" where
  "slotOutcome badges slots ids k =
     (case arrange (slots k) k (routed badges slots ids k) of
        Inl e \<Rightarrow> ([], [])
      | Inr r \<Rightarrow> r)"

definition isPyramidSlot :: "string \<Rightarrow> bool" where
  "isPyramidSlot k = (k = ''safBadges'' \<or> k = ''foreignBadges'')"

definition isUncappedSlot :: "string \<Rightarrow> bool" where
  "isUncappedSlot k = (k = ''medalsBelowRightPocket'' \<or> k = ''rightSleeveProficiency'')"

text \<open>
  \<open>p\<close> is the entry \<open>e\<close> up to geometry: every field other than \<open>x, y, w, h\<close> agrees.
\<close>

definition sameItem :: "Placed \<Rightarrow> Placed \<Rightarrow> bool" where
  "sameItem p e =
     (p_id p = p_id e \<and> p_label p = p_label e \<and> p_slot p = p_slot e \<and> p_z p = p_z e \<and>
      p_color p = p_color e \<and> p_asset p = p_asset e)"

text \<open>
  The items a rule keeps, and the warnings it emits for \<open>n\<close> items: the summary of
  \<open>arrange\<close> that lemmas \<open>arrange_kept\<close> and \<open>arrange_warnings\<close> establish.
\<close>

definition keptItems :: "string \<Rightarrow> Placed list \<Rightarrow> Placed list" where
  "keptItems k items =
     (if isPyramidSlot k then take 3 items
      else if isUncappedSlot k then items
      else take 1 items)"

definition slotWarnings :: "string \<Rightarrow> nat \<Rightarrow> string list" where
  "slotWarnings k n =
     (if isPyramidSlot k
      then (if 3 < n then [k @ '' allows max 3; extra selections ignored.''] else [])
      else if isUncappedSlot k then []
      else (if 1 < n then [k @ '': multiple selections; only first shown.''] else []))"

text \<open>The selection without the identifiers whose entry is filed under key \<open>k\<close>.\<close>

definition withoutSlot :: "Badges \<Rightarrow> Slots \<Rightarrow> string \<Rightarrow> string list \<Rightarrow> string list" where
  "withoutSlot badges slots k ids =
     filter (\<lambda>i. case entryOf badges slots i of None \<Rightarrow> True | Some e \<Rightarrow> entryKey e \<noteq> k) ids"

text \<open>The outputs of a run; empty when the run throws.\<close>

definition layoutOf :: "error + (Placed list \<times> string list) \<Rightarrow> Placed list" where
  "layoutOf r = (case r of Inl e \<Rightarrow> [] | Inr (layout, warnings) \<Rightarrow> layout)"

definition warningsOf :: "error + (Placed list \<times> string list) \<Rightarrow> string list" where
  "warningsOf r = (case r of Inl e \<Rightarrow> [] | Inr (layout, warnings) \<Rightarrow> warnings)"

text \<open>
  Appending an entry to its group in an association list, creating the group at the end
  when there is none: what \<open>pushEntry\<close> does when it does not throw.
\<close>

fun insertEntry :: "BySlot \<Rightarrow> string \<Rightarrow> Placed \<Rightarrow> BySlot" where
  "insertEntry [] k e = [(k, [e])]"
| "insertEntry ((k', items) # rest) k e =
     (if k' = k then (k', items @ [e]) # rest else (k', items) # insertEntry rest k e)"

text \<open>
  The identifiers of the selection that resolve to slot \<open>k\<close>: found in the item table,
  with slot \<open>k\<close>, found in the slot table.
\<close>

definition routedIds :: "Badges \<Rightarrow> Slots \<Rightarrow> string \<Rightarrow> string list \<Rightarrow> string list" where
  "routedIds badges slots k ids =
     filter (\<lambda>i. case badges i of None \<Rightarrow> False
                  | Some spec \<Rightarrow> b_slot spec = k \<and> slots k \<noteq> None) ids"

text \<open>Two rectangles overlap when their interiors meet.\<close>

definition overlaps :: "Placed \<Rightarrow> Placed \<Rightarrow> bool" where
  "overlaps p q =
     (p_x p < p_x q + p_w q \<and> p_x q < p_x p + p_w p \<and>
      p_y p < p_y q + p_h q \<and> p_y q < p_y p + p_h p)"

text \<open>The gap constant of each arrangement rule.\<close>

definition slotGap :: "string \<Rightarrow> real" where
  "slotGap k = (if k = ''medalsBelowRightPocket'' then 10 else 8)"

text \<open>\<open>q\<close> lies to the right of \<open>p\<close> or below it, at least \<open>g\<close> away.\<close>

definition separated :: "real \<Rightarrow> Placed \<Rightarrow> Placed \<Rightarrow> bool" where
  "separated g p q = (p_x p + p_w p + g \<le> p_x q \<or> p_y p + p_h p + g \<le> p_y q)"

subsection \<open>Sample tables\<close>

text \<open>
  Tables of the shape the source expects, used to run the functions on concrete
  selections. The item \<open>ghost\<close> names a slot that no slot table below has; the items
  \<open>odd\<close> and \<open>star\<close> name slots whose identifiers every object inherits. \<open>exoticSlots\<close>
  extends \<open>sampleSlots\<close> by slots with the identifiers \<^verbatim>\<open>constructor\<close> and \<^verbatim>\<open>undefined\<close>.
\<close>

definition sampleSlotList :: "(string \<times> Slot) list" where
  "sampleSlotList =
     [(''leftSleeveRank'',
         \<lparr>slot_x = 120, slot_y = 300, slot_w = 100, slot_h = 60, slot_z = 1\<rparr>),
      (''safBadges'',
         \<lparr>slot_x = 300, slot_y = 200, slot_w = 200, slot_h = 140, slot_z = 2\<rparr>),
      (''foreignBadges'',
         \<lparr>slot_x = 600, slot_y = 200, slot_w = 200, slot_h = 140, slot_z = 3\<rparr>),
      (''medalsBelowRightPocket'',
         \<lparr>slot_x = 600, slot_y = 400, slot_w = 200, slot_h = 80, slot_z = 4\<rparr>),
      (''rightSleeveProficiency'',
         \<lparr>slot_x = 800, slot_y = 300, slot_w = 100, slot_h = 200, slot_z = 5\<rparr>)]"

definition sampleSlots :: Slots where
  "sampleSlots = map_of sampleSlotList"

definition exoticSlots :: Slots where
  "exoticSlots = map_of (sampleSlotList @
     [(''constructor'',
         \<lparr>slot_x = 100, slot_y = 600, slot_w = 80, slot_h = 40, slot_z = 6\<rparr>),
      (''undefined'',
         \<lparr>slot_x = 100, slot_y = 700, slot_w = 80, slot_h = 40, slot_z = 7\<rparr>)])"

definition sampleBadge :: "string \<Rightarrow> string \<Rightarrow> string \<Rightarrow> string \<Rightarrow> Badge" where
  "sampleBadge label category slot color =
     \<lparr>b_label = label, b_category = category, b_slot = slot, b_color = color, b_asset = None\<rparr>"

definition sampleBadges :: Badges where
  "sampleBadges = map_of
     [(''sergeant'', sampleBadge ''SGT'' ''rank'' ''leftSleeveRank'' ''#111827''),
      (''corporal'', sampleBadge ''CPL'' ''rank'' ''leftSleeveRank'' ''#1f2937''),
      (''a'', sampleBadge ''A'' ''saf'' ''safBadges'' ''#2563eb''),
      (''b'', sampleBadge ''B'' ''saf'' ''safBadges'' ''#2563eb''),
      (''c'', sampleBadge ''C'' ''saf'' ''safBadges'' ''#2563eb''),
      (''d'', sampleBadge ''D'' ''saf'' ''safBadges'' ''#2563eb''),
      (''x'', sampleBadge ''X'' ''medal'' ''medalsBelowRightPocket'' ''#b45309''),
      (''y'', sampleBadge ''Y'' ''medal'' ''medalsBelowRightPocket'' ''#b45309''),
      (''p'', sampleBadge ''P'' ''proficiency'' ''rightSleeveProficiency'' ''#047857''),
      (''ghost'', sampleBadge ''G'' ''saf'' ''noSuchSlot'' ''#000000''),
      (''odd'', sampleBadge ''O'' ''saf'' ''toString'' ''#000000''),
      (''star'', sampleBadge ''S'' ''rank'' ''constructor'' ''#000000'')]"

text \<open>Tables whose slot identifiers are numerals.\<close>

definition numberedSlots :: Slots where
  "numberedSlots = map_of
     [(''10'', \<lparr>slot_x = 100, slot_y = 100, slot_w = 80, slot_h = 40, slot_z = 1\<rparr>),
      (''2'', \<lparr>slot_x = 300, slot_y = 100, slot_w = 80, slot_h = 40, slot_z = 2\<rparr>)]"

definition numberedBadges :: Badges where
  "numberedBadges = map_of
     [(''t1'', sampleBadge ''T1'' ''rank'' ''10'' ''#111827''),
      (''t2'', sampleBadge ''T2'' ''rank'' ''10'' ''#111827''),
      (''u1'', sampleBadge ''U1'' ''rank'' ''2'' ''#1f2937''),
      (''u2'', sampleBadge ''U2'' ''rank'' ''2'' ''#1f2937'')]"

section \<open>Grouping: what the first loop builds\<close>

lemma getProp_cases:
  "getProp obj key = Own v \<longleftrightarrow> obj key = Some v"
  "getProp obj key = Inherited \<longleftrightarrow> obj key = None \<and> key \<in> set protoNames"
  "getProp obj key = Missing \<longleftrightarrow> obj key = None \<and> key \<notin> set protoNames"
  by (auto simp: getProp_def split: option.splits)

lemma undefined_not_inherited: "''undefined'' \<notin> set protoNames"
  by (simp add: protoNames_def)

lemma named_slots_not_inherited:
  "''safBadges'' \<notin> set protoNames" "''foreignBadges'' \<notin> set protoNames"
  "''medalsBelowRightPocket'' \<notin> set protoNames" "''rightSleeveProficiency'' \<notin> set protoNames"
  by (simp_all add: protoNames_def)

lemma p_fields_mkEntry [simp]:
  "p_id (mkEntry i spec box) = i"
  "p_slot (mkEntry i spec box) = specField b_slot spec"
  "p_label (mkEntry i spec box) = specField b_label spec"
  "p_color (mkEntry i spec box) = specField b_color spec"
  "p_asset (mkEntry i spec box) = specAsset spec"
  "p_z (mkEntry i spec box) = slot_z box"
  "p_x (mkEntry i spec box) = slot_x box"
  "p_y (mkEntry i spec box) = slot_y box"
  "p_w (mkEntry i spec box) = slot_w box"
  "p_h (mkEntry i spec box) = slot_h box"
  by (simp_all add: mkEntry_def)

lemma entryKey_mkEntry [simp]:
  "entryKey (mkEntry i spec box) = propertyKey (specField b_slot spec)"
  by (simp add: entryKey_def)

text \<open>An entry is filed for an item of the table whose slot the slot table has, or for an
  inherited name when the slot table has the key \<^verbatim>\<open>"undefined"\<close>.\<close>

lemma entryOf_SomeD:
  assumes "entryOf B S i = Some e"
  shows "\<exists>spec box. getProp B i = spec \<and> spec \<noteq> Missing
           \<and> S (propertyKey (specField b_slot spec)) = Some box \<and> e = mkEntry i spec box"
  using assms by (auto simp: entryOf_def split: lookup.splits option.splits)

lemma filed_Nil [simp]: "filed B S [] = []"
  by (simp add: filed_def map_filter_simps)

lemma filed_Cons:
  "filed B S (i # ids) =
     (case entryOf B S i of None \<Rightarrow> filed B S ids | Some e \<Rightarrow> e # filed B S ids)"
  unfolding filed_def by (simp add: map_filter_simps split: option.splits)

lemma filed_append: "filed B S (xs @ ys) = filed B S xs @ filed B S ys"
  by (simp add: filed_def map_filter_def)

lemma in_filedD:
  assumes "e \<in> set (filed B S ids)"
  shows "\<exists>i spec box. i \<in> set ids \<and> getProp B i = spec \<and> spec \<noteq> Missing
           \<and> S (propertyKey (specField b_slot spec)) = Some box \<and> e = mkEntry i spec box"
proof -
  from assms obtain i where "i \<in> set ids" "entryOf B S i = Some e"
    by (auto simp: filed_def map_filter_def)
  with entryOf_SomeD [of B S i e] show ?thesis by blast
qed

lemma pushEntry_plain:
  "k \<notin> set protoNames \<Longrightarrow> pushEntry acc k e = Inr (insertEntry acc k e)"
  by (induction acc) auto

lemma pushEntry_inherited:
  "k \<in> set protoNames \<Longrightarrow> k \<notin> fst ` set acc \<Longrightarrow> pushEntry acc k e = Inl TypeError"
  by (induction acc) auto

lemma map_fst_insertEntry:
  "map fst (insertEntry acc k e) =
     (if k \<in> set (map fst acc) then map fst acc else map fst acc @ [k])"
  by (induction acc) (force simp: image_iff)+

lemma keys_insertEntry: "fst ` set (insertEntry acc k e) = insert k (fst ` set acc)"
proof -
  have "set (map fst (insertEntry acc k e)) = insert k (set (map fst acc))"
    unfolding map_fst_insertEntry by auto
  then show ?thesis by simp
qed

text \<open>
  The first loop throws exactly on the selections that do not complete; otherwise it files
  the entries, in selection order, into their groups; the identifiers it skips leave no
  trace.
\<close>

lemma groupBySlot_step:
  assumes "fst ` set acc \<inter> set protoNames = {}"
  shows "groupBySlot B S (i # ids) acc =
           (if throwsOn B i then Inl TypeError
            else groupBySlot B S ids
                   (case entryOf B S i of None \<Rightarrow> acc | Some e \<Rightarrow> insertEntry acc (entryKey e) e))"
proof (cases "getProp B i = Missing")
  case True
  then show ?thesis by (simp add: throwsOn_def entryOf_def)
next
  case False
  define key where "key = propertyKey (specField b_slot (getProp B i))"
  have unfold: "groupBySlot B S (i # ids) acc =
      (case getProp S key of
         Missing \<Rightarrow> groupBySlot B S ids acc
       | Inherited \<Rightarrow> Inl TypeError
       | Own box \<Rightarrow>
           (case pushEntry acc key (mkEntry i (getProp B i) box) of
              Inl e \<Rightarrow> Inl e
            | Inr bySlot' \<Rightarrow> groupBySlot B S ids bySlot'))"
    using False
    by (cases "getProp B i") (auto simp: key_def Let_def split: lookup.splits sum.splits)
  have throws: "throwsOn B i \<longleftrightarrow> key \<in> set protoNames"
    using False by (cases "getProp B i") (simp_all add: throwsOn_def key_def)
  have entry: "entryOf B S i = (case S key of None \<Rightarrow> None
                                | Some box \<Rightarrow> Some (mkEntry i (getProp B i) box))"
    using False
    by (cases "getProp B i") (auto simp: entryOf_def key_def split: option.splits)
  show ?thesis
  proof (cases "key \<in> set protoNames")
    case True
    with assms have "key \<notin> fst ` set acc" by auto
    with True show ?thesis
      unfolding unfold throws
      by (cases "S key") (simp_all add: getProp_def pushEntry_inherited)
  next
    case plain: False
    then show ?thesis
      unfolding unfold throws entry
      by (cases "S key") (simp_all add: getProp_def pushEntry_plain key_def)
  qed
qed

lemma entryOf_key_plain:
  "entryOf B S i = Some e \<Longrightarrow> \<not> throwsOn B i \<Longrightarrow> entryKey e \<notin> set protoNames"
  by (auto simp: entryOf_def throwsOn_def split: lookup.splits option.splits)

lemma groupBySlot_fold:
  assumes "fst ` set acc \<inter> set protoNames = {}"
  shows "groupBySlot B S ids acc =
           (if completes B ids
            then Inr (fold (\<lambda>e acc. insertEntry acc (entryKey e) e) (filed B S ids) acc)
            else Inl TypeError)"
  using assms
proof (induction ids arbitrary: acc)
  case Nil
  show ?case by (simp add: completes_def)
next
  case (Cons i ids)
  show ?case
  proof (cases "throwsOn B i")
    case True
    with Cons.prems show ?thesis
      by (simp add: groupBySlot_step completes_def del: groupBySlot.simps)
  next
    case False
    let ?acc = "case entryOf B S i of None \<Rightarrow> acc | Some e \<Rightarrow> insertEntry acc (entryKey e) e"
    have inv: "fst ` set ?acc \<inter> set protoNames = {}"
      using Cons.prems False entryOf_key_plain [of B S i]
      by (auto simp: keys_insertEntry split: option.splits)
    from Cons.IH [OF inv] Cons.prems False show ?thesis
      by (simp add: groupBySlot_step completes_def filed_Cons del: groupBySlot.simps
               split: option.splits)
  qed
qed

lemma firstOccurrences_snoc:
  "firstOccurrences (xs @ [k]) =
     (if k \<in> set xs then firstOccurrences xs else firstOccurrences xs @ [k])"
  by (simp add: firstOccurrences_def)

lemma set_firstOccurrences [simp]: "set (firstOccurrences xs) = set xs"
  by (simp add: firstOccurrences_def)

lemma distinct_firstOccurrences [simp]: "distinct (firstOccurrences xs)"
  by (simp add: firstOccurrences_def)

lemma insertEntry_map:
  "distinct ks \<Longrightarrow> insertEntry (map (\<lambda>k. (k, f k)) ks) k e =
     map (\<lambda>k'. (k', if k' = k then f k' @ [e] else f k')) ks
     @ (if k \<in> set ks then [] else [(k, [e])])"
  by (induction ks) (auto simp: map_idI)

lemma fold_insertEntry:
  "fold (\<lambda>e acc. insertEntry acc (entryKey e) e) es [] =
     map (\<lambda>k. (k, filter (\<lambda>e. entryKey e = k) es)) (firstOccurrences (map entryKey es))"
proof (induction es rule: rev_induct)
  case Nil
  show ?case by (simp add: firstOccurrences_def)
next
  case (snoc e es)
  have "k \<notin> set (map entryKey es) \<Longrightarrow> filter (\<lambda>e. entryKey e = k) es = []" for k
    by (auto simp: filter_empty_conv)
  then show ?case
    using snoc by (auto simp: insertEntry_map firstOccurrences_snoc)
qed

text \<open>
  So, when the loop completes, \<^verbatim>\<open>bySlot\<close> holds one group per occupied key, the keys in
  the order of their first occurrence in the selection, each group in selection order.
\<close>

lemma groupBySlot_groups:
  "groupBySlot B S ids [] =
     (if completes B ids
      then Inr (map (\<lambda>k. (k, routed B S ids k)) (occupiedSlots B S ids))
      else Inl TypeError)"
  by (simp add: groupBySlot_fold fold_insertEntry routed_def occupiedSlots_def)

lemma insort_key_map:
  "insort_key g (h x) (map h xs) = map h (insort_key (\<lambda>y. g (h y)) x xs)"
  by (induction xs) auto

lemma sort_key_map:
  "sort_key g (map h xs) = map h (sort_key (\<lambda>y. g (h y)) xs)"
  by (induction xs) (auto simp: insort_key_map)

text \<open>
  \<^verbatim>\<open>Object.entries\<close> keeps insertion order except for array-index keys, which come first
  in numeric order; a numeral with a leading zero is an ordinary key.
\<close>

lemma objectEntries_example:
  "map fst (objectEntries
       [(''rank'', 1::nat), (''7'', 2), (''07'', 3), (''10'', 4), (''2'', 5)]) =
     [''2'', ''7'', ''10'', ''rank'', ''07'']"
  by code_simp

lemma objectEntries_map:
  "objectEntries (map (\<lambda>k. (k, f k)) ks) = map (\<lambda>k. (k, f k)) (keyOrder ks)"
  by (simp add: objectEntries_def keyOrder_def filter_map sort_key_map comp_def)

lemma set_keyOrder [simp]: "set (keyOrder ks) = set ks"
  by (auto simp: keyOrder_def)

lemma distinct_keyOrder [simp]: "distinct ks \<Longrightarrow> distinct (keyOrder ks)"
  by (auto simp: keyOrder_def)

lemma keyOrder_plain: "\<forall>k\<in>set ks. \<not> isArrayIndex k \<Longrightarrow> keyOrder ks = ks"
  by (simp add: keyOrder_def filter_empty_conv)

lemma keyOrder_filter: "keyOrder (filter P ks) = filter P (keyOrder ks)"
  by (simp add: keyOrder_def filter_sort conj_commute)

lemma arrangeAll_map:
  assumes "\<forall>k\<in>set ks. arrange (S k) k (f k) = Inr (g k)"
  shows "arrangeAll S (map (\<lambda>k. (k, f k)) ks) placed warnings =
           Inr (placed @ concat (map (\<lambda>k. fst (g k)) ks), warnings @ concat (map (\<lambda>k. snd (g k)) ks))"
  using assms
proof (induction ks arbitrary: placed warnings)
  case Nil
  show ?case by simp
next
  case (Cons k ks)
  from Cons.prems have b: "arrange (S k) k (f k) = Inr (g k)"
    by auto
  have rest: "\<forall>k\<in>set ks. arrange (S k) k (f k) = Inr (g k)"
    using Cons.prems by simp
  show ?case
    using b Cons.IH [OF rest] by (simp add: split_beta)
qed

section \<open>Arrangement: what the second loop computes\<close>

lemma sameItem_update [simp]:
  "sameItem (e\<lparr>p_x := a, p_y := b, p_w := c, p_h := d\<rparr>) e"
  by (simp add: sameItem_def)

lemma sameItem_refl [simp]: "sameItem e e"
  by (simp add: sameItem_def)

lemma length_forEachIndexed [simp]: "length (forEachIndexed f items) = length items"
  by (simp add: forEachIndexed_def)

lemma nth_forEachIndexed:
  "i < length items \<Longrightarrow> forEachIndexed f items ! i = f (items ! i) i"
  by (simp add: forEachIndexed_def nth_enumerate_eq)

lemma forEachIndexed_sameItem:
  assumes "\<And>it i. sameItem (f it i) it"
  shows "list_all2 sameItem (forEachIndexed f items) items"
  using assms by (simp add: list_all2_conv_all_nth nth_forEachIndexed)

lemma list_shape:
  "items = [] \<or> (\<exists>a. items = [a]) \<or> (\<exists>a b. items = [a, b]) \<or> (\<exists>a b c rest. items = a # b # c # rest)"
  by (metis list.exhaust)

text \<open>The pyramid rule, by number of items.\<close>

lemma pyramidRule_0: "pyramidRule box k [] = ([], [])"
  by (simp add: pyramidRule_def)

lemma pyramidRule_1:
  "pyramidRule box k [a] =
     ([a\<lparr>p_x := slot_x box + (slot_w box - min (slot_w box) 90) / 2, p_y := slot_y box,
          p_w := min (slot_w box) 90, p_h := min (slot_h box) 60\<rparr>], [])"
  by (simp add: pyramidRule_def Let_def)

lemma pyramidRule_2:
  "pyramidRule box k [a, b] =
     ([a\<lparr>p_x := slot_x box + (slot_w box - (min (slot_w box) 90 * 2 + 8)) / 2,
          p_y := slot_y box, p_w := min (slot_w box) 90, p_h := min (slot_h box) 60\<rparr>,
       b\<lparr>p_x := slot_x box + (slot_w box - (min (slot_w box) 90 * 2 + 8)) / 2
                   + (min (slot_w box) 90 + 8),
          p_y := slot_y box, p_w := min (slot_w box) 90, p_h := min (slot_h box) 60\<rparr>], [])"
  by (simp add: pyramidRule_def forEachIndexed_def Let_def)

lemma pyramidRule_3:
  "pyramidRule box k (a # b # c # rest) =
     ([a\<lparr>p_x := slot_x box + (slot_w box - min (slot_w box) 90) / 2, p_y := slot_y box,
          p_w := min (slot_w box) 90, p_h := min (slot_h box) 60\<rparr>,
       b\<lparr>p_x := slot_x box + (slot_w box - (min (slot_w box) 90 * 2 + 8)) / 2,
          p_y := slot_y box + min (slot_h box) 60 + 8,
          p_w := min (slot_w box) 90, p_h := min (slot_h box) 60\<rparr>,
       c\<lparr>p_x := slot_x box + (slot_w box - (min (slot_w box) 90 * 2 + 8)) / 2
                   + (min (slot_w box) 90 + 8),
          p_y := slot_y box + min (slot_h box) 60 + 8,
          p_w := min (slot_w box) 90, p_h := min (slot_h box) 60\<rparr>],
      if rest = [] then [] else [k @ '' allows max 3; extra selections ignored.''])"
  by (simp add: pyramidRule_def forEachIndexed_def Let_def)

lemma arrange_pyramid:
  "isPyramidSlot k \<Longrightarrow> arrange (Some box) k items = Inr (pyramidRule box k items)"
  by (auto simp: arrange_def isPyramidSlot_def)

lemma arrange_medals:
  "arrange (Some box) ''medalsBelowRightPocket'' items = Inr (medalRule box items, [])"
  by (simp add: arrange_def)

lemma arrange_stack:
  "arrange (Some box) ''rightSleeveProficiency'' items = Inr (stackRule box items, [])"
  by (simp add: arrange_def)

lemma medalRule_sameItem: "list_all2 sameItem (medalRule box items) items"
  unfolding medalRule_def Let_def by (rule forEachIndexed_sameItem) simp

lemma stackRule_sameItem: "list_all2 sameItem (stackRule box items) items"
  unfolding stackRule_def Let_def by (rule forEachIndexed_sameItem) simp

lemma arrange_single:
  "\<not> isPyramidSlot k \<Longrightarrow> \<not> isUncappedSlot k \<Longrightarrow> arrange box k (e # rest) =
     Inr ([e], if rest = [] then [] else [k @ '': multiple selections; only first shown.''])"
  by (auto simp: arrange_def isPyramidSlot_def isUncappedSlot_def)

lemma arrange_single_empty:
  "\<not> isPyramidSlot k \<Longrightarrow> \<not> isUncappedSlot k \<Longrightarrow> arrange box k [] = Inl UndefinedItem"
  by (auto simp: arrange_def isPyramidSlot_def isUncappedSlot_def)

lemma slot_kinds:
  "isPyramidSlot k \<Longrightarrow> \<not> isUncappedSlot k"
  by (auto simp: isPyramidSlot_def isUncappedSlot_def)

text \<open>With a box of the slot table and at least one item, no rule throws.\<close>

lemma arrange_total:
  assumes "items \<noteq> []"
  shows "\<exists>r. arrange (Some box) k items = Inr r"
proof (cases "isPyramidSlot k")
  case True
  then show ?thesis by (simp add: arrange_pyramid)
next
  case False
  show ?thesis
  proof (cases "isUncappedSlot k")
    case True
    then show ?thesis
      by (auto simp: isUncappedSlot_def arrange_medals arrange_stack)
  next
    case u: False
    from assms obtain e rest where "items = e # rest" by (cases items) auto
    with False u show ?thesis by (simp add: arrange_single)
  qed
qed

lemma pyramidRule_kept: "list_all2 sameItem (fst (pyramidRule box k items)) (take 3 items)"
  using list_shape [of items]
  by (auto simp: pyramidRule_0 pyramidRule_1 pyramidRule_2 pyramidRule_3 simp del: One_nat_def)

lemma pyramidRule_warnings:
  "snd (pyramidRule box k items) =
     (if 3 < length items then [k @ '' allows max 3; extra selections ignored.''] else [])"
  using list_shape [of items]
  by (auto simp: pyramidRule_0 pyramidRule_1 pyramidRule_2 pyramidRule_3 simp del: One_nat_def)

lemma arrange_kept:
  assumes "arrange box k items = Inr (ps, ws)"
  shows "list_all2 sameItem ps (keptItems k items)"
proof (cases box)
  case None
  with assms show ?thesis
    by (cases items)
       (auto simp: arrange_def keptItems_def isPyramidSlot_def isUncappedSlot_def
             split: if_splits)
next
  case (Some b)
  show ?thesis
  proof (cases "isPyramidSlot k")
    case True
    with assms Some pyramidRule_kept [of b k items] show ?thesis
      by (auto simp: arrange_pyramid keptItems_def)
  next
    case False
    show ?thesis
    proof (cases "isUncappedSlot k")
      case True
      with False assms Some medalRule_sameItem [of b items] stackRule_sameItem [of b items]
      show ?thesis
        by (auto simp: isUncappedSlot_def arrange_medals arrange_stack keptItems_def)
    next
      case u: False
      with False assms show ?thesis
        by (cases items) (auto simp: arrange_single arrange_single_empty keptItems_def)
    qed
  qed
qed

lemma arrange_warnings:
  assumes "arrange box k items = Inr (ps, ws)"
  shows "ws = slotWarnings k (length items)"
proof (cases box)
  case None
  with assms show ?thesis
    by (cases items)
       (auto simp: arrange_def slotWarnings_def isPyramidSlot_def isUncappedSlot_def
             split: if_splits)
next
  case (Some b)
  show ?thesis
  proof (cases "isPyramidSlot k")
    case True
    with assms Some pyramidRule_warnings [of b k items] show ?thesis
      by (auto simp: arrange_pyramid slotWarnings_def)
  next
    case False
    show ?thesis
    proof (cases "isUncappedSlot k")
      case True
      with False assms Some show ?thesis
        by (auto simp: isUncappedSlot_def arrange_medals arrange_stack slotWarnings_def)
    next
      case u: False
      with False assms show ?thesis
        by (cases items) (auto simp: arrange_single arrange_single_empty slotWarnings_def)
    qed
  qed
qed

lemma slotWarnings_0 [simp]: "slotWarnings k 0 = []"
  by (simp add: slotWarnings_def)

lemma keptItems_Nil [simp]: "keptItems k [] = []"
  by (simp add: keptItems_def)

lemma length_slotWarnings: "length (slotWarnings k n) \<le> 1"
  by (simp add: slotWarnings_def)

section \<open>Placements and warnings, slot by slot\<close>

lemma slotOutcome_empty:
  "routed B S ids k = [] \<Longrightarrow> slotOutcome B S ids k = ([], [])"
proof -
  assume r: "routed B S ids k = []"
  show ?thesis
  proof (cases "arrange (S k) k []")
    case (Inl e)
    with r show ?thesis by (simp add: slotOutcome_def)
  next
    case (Inr res)
    obtain ps ws where res: "res = (ps, ws)" by (cases res)
    from arrange_kept [of "S k" k "[]" ps ws] arrange_warnings [of "S k" k "[]" ps ws] Inr res
    have "ps = []" "ws = []" by simp_all
    with r Inr res show ?thesis by (simp add: slotOutcome_def)
  qed
qed

lemma routed_nonempty_iff: "routed B S ids k \<noteq> [] \<longleftrightarrow> k \<in> set (occupiedSlots B S ids)"
  by (auto simp: routed_def occupiedSlots_def filter_empty_conv)

lemma filed_box:
  assumes "e \<in> set (filed B S ids)"
  shows "\<exists>box. S (entryKey e) = Some box \<and> p_x e = slot_x box \<and> p_y e = slot_y box
           \<and> p_w e = slot_w box \<and> p_h e = slot_h box \<and> p_z e = slot_z box"
  using in_filedD [OF assms] by auto

lemma occupied_box:
  assumes "k \<in> set (occupiedSlots B S ids)"
  shows "\<exists>box. S k = Some box"
proof -
  from assms obtain e where "e \<in> set (filed B S ids)" "entryKey e = k"
    by (auto simp: occupiedSlots_def)
  with filed_box [of e B S ids] show ?thesis by auto
qed

lemma slotOutcome_occupied:
  assumes "k \<in> set (occupiedSlots B S ids)"
  shows "arrange (S k) k (routed B S ids k) = Inr (slotOutcome B S ids k)"
proof -
  from occupied_box [OF assms] obtain box where b: "S k = Some box" by blast
  from assms have "routed B S ids k \<noteq> []" by (simp add: routed_nonempty_iff)
  from arrange_total [OF this, of box k] obtain r
    where "arrange (Some box) k (routed B S ids k) = Inr r" by blast
  with b show ?thesis by (simp add: slotOutcome_def)
qed

text \<open>
  The run throws exactly on the selections that do not complete. On the others every
  group has a box and at least one item, and the result is the concatenation of the
  outcomes of the occupied slots, in the iteration order of \<^verbatim>\<open>Object.entries\<close>.
\<close>

lemma computeLayout_outcomes:
  "computeLayout B S ids =
     (if completes B ids
      then Inr (concat (map (\<lambda>k. fst (slotOutcome B S ids k)) (keyOrder (occupiedSlots B S ids))),
                concat (map (\<lambda>k. snd (slotOutcome B S ids k)) (keyOrder (occupiedSlots B S ids))))
      else Inl TypeError)"
proof -
  have "\<forall>k\<in>set (keyOrder (occupiedSlots B S ids)).
          arrange (S k) k (routed B S ids k) = Inr (slotOutcome B S ids k)"
    using slotOutcome_occupied [of _ B S ids] by simp
  from arrangeAll_map [OF this, of "[]" "[]"] show ?thesis
    by (simp add: computeLayout_def groupBySlot_groups objectEntries_map)
qed

lemma computeLayout_throws: "\<not> completes B ids \<Longrightarrow> computeLayout B S ids = Inl TypeError"
  by (simp add: computeLayout_outcomes)

lemma computeLayout_Inr:
  "completes B ids \<Longrightarrow> computeLayout B S ids =
     Inr (layoutOf (computeLayout B S ids), warningsOf (computeLayout B S ids))"
  by (simp add: computeLayout_outcomes layoutOf_def warningsOf_def)

lemma slotOutcome_kept:
  "list_all2 sameItem (fst (slotOutcome B S ids k)) (keptItems k (routed B S ids k))"
proof (cases "k \<in> set (occupiedSlots B S ids)")
  case True
  from slotOutcome_occupied [OF True]
  have "arrange (S k) k (routed B S ids k) = Inr (slotOutcome B S ids k)" .
  then show ?thesis
    using arrange_kept [of "S k" k "routed B S ids k" "fst (slotOutcome B S ids k)" "snd (slotOutcome B S ids k)"]
    by simp
next
  case False
  then have "routed B S ids k = []" using routed_nonempty_iff [of B S ids k] by simp
  then show ?thesis by (simp add: slotOutcome_empty)
qed

lemma slotOutcome_warnings:
  "snd (slotOutcome B S ids k) = slotWarnings k (length (routed B S ids k))"
proof (cases "k \<in> set (occupiedSlots B S ids)")
  case True
  from slotOutcome_occupied [OF True]
  have "arrange (S k) k (routed B S ids k) = Inr (slotOutcome B S ids k)" .
  then show ?thesis
    using arrange_warnings [of "S k" k "routed B S ids k" "fst (slotOutcome B S ids k)" "snd (slotOutcome B S ids k)"]
    by simp
next
  case False
  then have "routed B S ids k = []" using routed_nonempty_iff [of B S ids k] by simp
  then show ?thesis by (simp add: slotOutcome_empty)
qed

lemma set_keptItems: "set (keptItems k items) \<subseteq> set items"
  by (auto simp: keptItems_def dest: in_set_takeD)

lemma list_all2_memberD:
  "list_all2 R xs ys \<Longrightarrow> x \<in> set xs \<Longrightarrow> \<exists>y\<in>set ys. R x y"
  by (induction rule: list_all2_induct) auto

lemma slotOutcome_member:
  assumes "p \<in> set (fst (slotOutcome B S ids k))"
  shows "\<exists>e\<in>set (routed B S ids k). sameItem p e"
proof -
  from assms slotOutcome_kept [of B S ids k]
  obtain e where "e \<in> set (keptItems k (routed B S ids k))" "sameItem p e"
    by (auto dest: list_all2_memberD)
  with set_keptItems [of k "routed B S ids k"] show ?thesis by blast
qed

lemma sameItem_key: "sameItem p e \<Longrightarrow> entryKey p = entryKey e"
  by (simp add: sameItem_def entryKey_def)

lemma slotOutcome_slot:
  "p \<in> set (fst (slotOutcome B S ids k)) \<Longrightarrow> entryKey p = k"
  using slotOutcome_member [of p B S ids k] by (auto simp: routed_def dest: sameItem_key)

lemma filter_concat_keys:
  assumes "distinct ks" and "\<And>k' p. k' \<in> set ks \<Longrightarrow> p \<in> set (F k') \<Longrightarrow> sl p = k'"
  shows "filter (\<lambda>p. sl p = k) (concat (map F ks)) = (if k \<in> set ks then F k else [])"
  using assms
proof (induction ks)
  case Nil
  show ?case by simp
next
  case (Cons a ks)
  have here: "filter (\<lambda>p. sl p = k) (F a) = (if a = k then F a else [])"
    using Cons.prems(2) [of a] by (auto simp: filter_empty_conv filter_id_conv)
  have rest: "filter (\<lambda>p. sl p = k) (concat (map F ks)) = (if k \<in> set ks then F k else [])"
    using Cons by simp
  show ?case
    using here rest Cons.prems(1) by auto
qed

text \<open>The placements filed under one key are the outcome of that slot.\<close>

lemma layout_by_slot:
  assumes "completes B ids"
  shows "filter (\<lambda>p. entryKey p = k) (layoutOf (computeLayout B S ids)) = fst (slotOutcome B S ids k)"
proof -
  have "filter (\<lambda>p. entryKey p = k)
          (concat (map (\<lambda>k. fst (slotOutcome B S ids k)) (keyOrder (occupiedSlots B S ids)))) =
        (if k \<in> set (keyOrder (occupiedSlots B S ids)) then fst (slotOutcome B S ids k) else [])"
    by (rule filter_concat_keys) (auto simp: occupiedSlots_def dest: slotOutcome_slot)
  moreover have "k \<notin> set (occupiedSlots B S ids) \<Longrightarrow> fst (slotOutcome B S ids k) = []"
    using routed_nonempty_iff [of B S ids k] by (simp add: slotOutcome_empty)
  ultimately show ?thesis
    using assms by (simp add: computeLayout_outcomes layoutOf_def)
qed

lemma warnings_by_slot:
  assumes "completes B ids"
  shows "warningsOf (computeLayout B S ids) =
     concat (map (\<lambda>k. slotWarnings k (length (routed B S ids k))) (keyOrder (occupiedSlots B S ids)))"
  using assms by (simp add: computeLayout_outcomes warningsOf_def slotOutcome_warnings)

lemma routed_subset: "set (routed B S ids k) \<subseteq> set (filed B S ids)"
  by (auto simp: routed_def)

lemma layout_member:
  assumes "completes B ids" and "p \<in> set (layoutOf (computeLayout B S ids))"
  shows "\<exists>e\<in>set (filed B S ids). sameItem p e"
proof -
  from assms obtain k where "p \<in> set (fst (slotOutcome B S ids k))"
    by (auto simp: computeLayout_outcomes layoutOf_def)
  from slotOutcome_member [OF this] routed_subset [of B S ids k] show ?thesis by blast
qed

section \<open>Warnings, slot by slot\<close>

lemma completes_withoutSlot: "completes B ids \<Longrightarrow> completes B (withoutSlot B S k ids)"
  by (simp add: completes_def withoutSlot_def list_all_iff)

lemma filed_withoutSlot:
  "filed B S (withoutSlot B S k ids) = filter (\<lambda>e. entryKey e \<noteq> k) (filed B S ids)"
proof (induction ids)
  case Nil
  show ?case by (simp add: withoutSlot_def)
next
  case (Cons a ids)
  then show ?case
    by (cases "entryOf B S a") (auto simp: withoutSlot_def filed_Cons)
qed

lemma routed_withoutSlot:
  "k' \<noteq> k \<Longrightarrow> routed B S (withoutSlot B S k ids) k' = routed B S ids k'"
  unfolding routed_def filed_withoutSlot filter_filter
  by (intro filter_cong) auto

lemma firstOccurrences_filter:
  "firstOccurrences (filter P xs) = filter P (firstOccurrences xs)"
  by (simp add: firstOccurrences_def rev_filter remdups_filter)

lemma occupiedSlots_withoutSlot:
  "occupiedSlots B S (withoutSlot B S k ids) = filter (\<lambda>k'. k' \<noteq> k) (occupiedSlots B S ids)"
  by (simp add: occupiedSlots_def filed_withoutSlot filter_map comp_def
                firstOccurrences_filter [symmetric])

lemma distinct_occupiedSlots: "distinct (keyOrder (occupiedSlots B S ids))"
  by (simp add: occupiedSlots_def)

text \<open>
  The warnings of a run are those of the run without the items of slot \<open>k\<close>, with what
  the rule of \<open>k\<close> emits inserted at the place of \<open>k\<close> in the iteration order.
\<close>

lemma warnings_split:
  assumes "completes B ids"
  shows "\<exists>ws1 ws2.
           warningsOf (computeLayout B S ids) =
             ws1 @ slotWarnings k (length (routed B S ids k)) @ ws2
           \<and> warningsOf (computeLayout B S (withoutSlot B S k ids)) = ws1 @ ws2"
proof -
  let ?ks = "keyOrder (occupiedSlots B S ids)"
  let ?W = "\<lambda>k'. slotWarnings k' (length (routed B S ids k'))"
  have without: "warningsOf (computeLayout B S (withoutSlot B S k ids)) =
      concat (map ?W (filter (\<lambda>k'. k' \<noteq> k) ?ks))"
  proof -
    have "warningsOf (computeLayout B S (withoutSlot B S k ids)) =
        concat (map (\<lambda>k'. slotWarnings k' (length (routed B S (withoutSlot B S k ids) k')))
          (filter (\<lambda>k'. k' \<noteq> k) ?ks))"
      using completes_withoutSlot [OF assms, of S k]
      by (simp only: warnings_by_slot occupiedSlots_withoutSlot keyOrder_filter)
    also have "map (\<lambda>k'. slotWarnings k' (length (routed B S (withoutSlot B S k ids) k')))
          (filter (\<lambda>k'. k' \<noteq> k) ?ks) = map ?W (filter (\<lambda>k'. k' \<noteq> k) ?ks)"
      by (rule map_cong) (simp_all add: routed_withoutSlot)
    finally show ?thesis .
  qed
  have all: "warningsOf (computeLayout B S ids) = concat (map ?W ?ks)"
    using assms by (rule warnings_by_slot)
  show ?thesis
  proof (cases "k \<in> set ?ks")
    case True
    from split_list [OF True] obtain ks1 ks2 where split: "?ks = ks1 @ k # ks2"
      by blast
    with distinct_occupiedSlots [of B S ids] have notin: "k \<notin> set ks1" "k \<notin> set ks2"
      by auto
    have keep: "k \<notin> set xs \<Longrightarrow> filter (\<lambda>k'. k' \<noteq> k) xs = xs" for xs
      by (induction xs) auto
    from notin have "filter (\<lambda>k'. k' \<noteq> k) ks1 = ks1" "filter (\<lambda>k'. k' \<noteq> k) ks2 = ks2"
      by (simp_all add: keep)
    with without split
    have w: "warningsOf (computeLayout B S (withoutSlot B S k ids)) =
        concat (map ?W ks1) @ concat (map ?W ks2)"
      by simp
    from all split
    have "warningsOf (computeLayout B S ids) = concat (map ?W ks1) @ ?W k @ concat (map ?W ks2)"
      by simp
    with w show ?thesis by blast
  next
    case False
    then have "routed B S ids k = []" using routed_nonempty_iff [of B S ids k] by simp
    then have silent: "?W k = []" by simp
    have keep: "k \<notin> set xs \<Longrightarrow> filter (\<lambda>k'. k' \<noteq> k) xs = xs" for xs
      by (induction xs) auto
    from False have "filter (\<lambda>k'. k' \<noteq> k) ?ks = ?ks"
      by (rule keep)
    with without all
    have "warningsOf (computeLayout B S (withoutSlot B S k ids)) = warningsOf (computeLayout B S ids)"
      by simp
    with silent have "warningsOf (computeLayout B S ids) =
        warningsOf (computeLayout B S ids) @ ?W k @ []
      \<and> warningsOf (computeLayout B S (withoutSlot B S k ids)) =
        warningsOf (computeLayout B S ids) @ []"
      by simp
    then show ?thesis by blast
  qed
qed

lemma set_warnings:
  assumes "completes B ids"
  shows "set (warningsOf (computeLayout B S ids)) =
           (\<Union>k. set (slotWarnings k (length (routed B S ids k))))"
proof -
  have "k \<notin> set (occupiedSlots B S ids) \<Longrightarrow> slotWarnings k (length (routed B S ids k)) = []" for k
    using routed_nonempty_iff [of B S ids k] by simp
  then show ?thesis
    using assms by (fastforce simp: warnings_by_slot)
qed

text \<open>The two warning texts never coincide, and each determines its slot.\<close>

lemma warning_texts_differ:
  "a @ '' allows max 3; extra selections ignored.'' \<noteq> b @ '': multiple selections; only first shown.''"
proof
  assume "a @ '' allows max 3; extra selections ignored.'' = b @ '': multiple selections; only first shown.''"
  then have "rev (a @ '' allows max 3; extra selections ignored.'') =
             rev (b @ '': multiple selections; only first shown.'')" by simp
  then show False by simp
qed

lemma pyramid_warning_iff:
  "isPyramidSlot k \<Longrightarrow>
     (k @ '' allows max 3; extra selections ignored.'') \<in> set (slotWarnings k' n)
       \<longleftrightarrow> k' = k \<and> 3 < n"
  using warning_texts_differ [of k k']
  by (auto simp: slotWarnings_def)

lemma single_warning_iff:
  "\<not> isPyramidSlot k \<Longrightarrow> \<not> isUncappedSlot k \<Longrightarrow>
     (k @ '': multiple selections; only first shown.'') \<in> set (slotWarnings k' n)
       \<longleftrightarrow> k' = k \<and> 1 < n"
  using warning_texts_differ [of k' k]
  by (auto simp: slotWarnings_def)

section \<open>Resolvable items\<close>

lemma entryKey_eq_iff: "k \<noteq> ''undefined'' \<Longrightarrow> entryKey p = k \<longleftrightarrow> p_slot p = Some k"
  by (cases "p_slot p") (auto simp: entryKey_def propertyKey_def)

text \<open>
  For a slot identifier other than \<^verbatim>\<open>"undefined"\<close>, the entries routed to the slot are
  those of the identifiers that resolve to it.
\<close>

lemma entryOf_routedIds:
  assumes "k \<noteq> ''undefined''"
  shows "(case entryOf B S i of None \<Rightarrow> False | Some e \<Rightarrow> entryKey e = k) \<longleftrightarrow>
         (case B i of None \<Rightarrow> False | Some spec \<Rightarrow> b_slot spec = k \<and> S k \<noteq> None)"
proof (cases "B i")
  case None
  with assms show ?thesis
    by (auto simp: entryOf_def getProp_def specField_def propertyKey_def split: option.splits)
next
  case (Some spec)
  then show ?thesis
    by (auto simp: entryOf_def getProp_def specField_def propertyKey_def split: option.splits)
qed

lemma routed_ids:
  assumes "k \<noteq> ''undefined''"
  shows "map p_id (routed B S ids k) = routedIds B S k ids"
proof (induction ids)
  case Nil
  show ?case by (simp add: routed_def routedIds_def)
next
  case (Cons i ids)
  have id: "entryOf B S i = Some e \<Longrightarrow> p_id e = i" for e
    using entryOf_SomeD [of B S i e] by auto
  from Cons entryOf_routedIds [OF assms, of B S i] id show ?case
    by (cases "entryOf B S i") (auto simp: routed_def routedIds_def filed_Cons)
qed

lemma list_all2_sameItem_ids:
  "list_all2 sameItem ps es \<Longrightarrow> map p_id ps = map p_id es"
  by (induction rule: list_all2_induct) (auto simp: sameItem_def)

lemma named_slots_defined:
  "isPyramidSlot k \<or> isUncappedSlot k \<Longrightarrow> k \<noteq> ''undefined''"
  by (auto simp: isPyramidSlot_def isUncappedSlot_def)

section \<open>The layout engine away from the inherited names\<close>

text \<open>
  Outside the inherited names the layout engine does what the specification says. The
  lemmas of this section state it for selections that complete, and for slot and item
  identifiers that do not meet \<^verbatim>\<open>Object.prototype\<close>.
\<close>

lemma slotOutcome_single:
  assumes "\<not> isPyramidSlot k" "\<not> isUncappedSlot k" "routed B S ids k = e # rest"
  shows "slotOutcome B S ids k =
           ([e], if rest = [] then [] else [k @ '': multiple selections; only first shown.''])"
proof -
  from assms(3) have "k \<in> set (occupiedSlots B S ids)"
    using routed_nonempty_iff [of B S ids k] by simp
  from slotOutcome_occupied [OF this] assms show ?thesis
    by (simp add: arrange_single)
qed

text \<open>
  Single occupancy: a slot other than the four named ones, and other than \<^verbatim>\<open>"undefined"\<close>,
  shows the first item that resolves to it, with the box of the slot table, and warns
  exactly when more than one item resolved to it.
\<close>

lemma single_occupancy:
  assumes "k \<noteq> ''safBadges''" "k \<noteq> ''foreignBadges''"
    and "k \<noteq> ''medalsBelowRightPocket''" "k \<noteq> ''rightSleeveProficiency''"
    and "k \<noteq> ''undefined''"
    and "completes B ids"
    and "routedIds B S k ids \<noteq> []"
  shows "\<exists>layout warnings box p ws1 ws2.
           computeLayout B S ids = Inr (layout, warnings)
           \<and> filter (\<lambda>p. p_slot p = Some k) layout = [p]
           \<and> p_id p = hd (routedIds B S k ids)
           \<and> S k = Some box
           \<and> p_x p = slot_x box \<and> p_y p = slot_y box \<and> p_w p = slot_w box \<and> p_h p = slot_h box
           \<and> warnings =
               ws1 @ (if 1 < length (routedIds B S k ids)
                      then [k @ '': multiple selections; only first shown.''] else []) @ ws2
           \<and> warningsOf (computeLayout B S (withoutSlot B S k ids)) = ws1 @ ws2"
proof -
  let ?layout = "layoutOf (computeLayout B S ids)"
  let ?warnings = "warningsOf (computeLayout B S ids)"
  from assms have np: "\<not> isPyramidSlot k" and nu: "\<not> isUncappedSlot k"
    by (simp_all add: isPyramidSlot_def isUncappedSlot_def)
  have ids: "map p_id (routed B S ids k) = routedIds B S k ids"
    using assms(5) by (rule routed_ids)
  with assms(7) obtain e rest where r: "routed B S ids k = e # rest"
    by (cases "routed B S ids k") auto
  have n: "length (routed B S ids k) = length (routedIds B S k ids)"
    using ids [THEN arg_cong, of length] by simp
  have one: "filter (\<lambda>p. p_slot p = Some k) ?layout = [e]"
    using layout_by_slot [OF assms(6), of k S] slotOutcome_single [OF np nu r]
    by (simp add: entryKey_eq_iff [OF assms(5)])
  have first: "p_id e = hd (routedIds B S k ids)"
  proof -
    from ids r have "routedIds B S k ids = p_id e # map p_id rest" by simp
    then show ?thesis by simp
  qed
  from r have "e \<in> set (filed B S ids)" "entryKey e = k" by (auto simp: routed_def dest: filter_eq_ConsD)
  with filed_box [of e B S ids] obtain box
    where box: "S k = Some box" "p_x e = slot_x box" "p_y e = slot_y box"
      "p_w e = slot_w box" "p_h e = slot_h box" by auto
  have emitted: "slotWarnings k (length (routed B S ids k)) =
      (if 1 < length (routedIds B S k ids)
       then [k @ '': multiple selections; only first shown.''] else [])"
    using np nu by (simp add: slotWarnings_def n)
  from warnings_split [OF assms(6), of S k] obtain ws1 ws2
    where split: "?warnings = ws1 @ slotWarnings k (length (routed B S ids k)) @ ws2"
      and rest: "warningsOf (computeLayout B S (withoutSlot B S k ids)) = ws1 @ ws2"
    by blast
  show ?thesis
  proof (intro exI conjI)
    show "computeLayout B S ids = Inr (?layout, ?warnings)"
      using assms(6) by (rule computeLayout_Inr)
    show "filter (\<lambda>p. p_slot p = Some k) ?layout = [e]" by (rule one)
    show "p_id e = hd (routedIds B S k ids)" by (rule first)
    show "S k = Some box" "p_x e = slot_x box" "p_y e = slot_y box"
      "p_w e = slot_w box" "p_h e = slot_h box" by (rule box)+
    show "?warnings = ws1 @ (if 1 < length (routedIds B S k ids)
                      then [k @ '': multiple selections; only first shown.''] else []) @ ws2"
      using split emitted by simp
    show "warningsOf (computeLayout B S (withoutSlot B S k ids)) = ws1 @ ws2" by (rule rest)
  qed
qed

text \<open>
  The medal row and the vertical stack place every item routed to them and emit no
  warning: the warnings are those of the selection without the items of the slot.
\<close>

lemma uncapped_slots_place_every_item:
  assumes "k = ''medalsBelowRightPocket'' \<or> k = ''rightSleeveProficiency''"
    and "completes B ids"
  shows "\<exists>layout warnings. computeLayout B S ids = Inr (layout, warnings)
           \<and> map p_id (filter (\<lambda>p. p_slot p = Some k) layout) = routedIds B S k ids
           \<and> list_all2 sameItem (filter (\<lambda>p. p_slot p = Some k) layout) (routed B S ids k)
           \<and> warnings = warningsOf (computeLayout B S (withoutSlot B S k ids))"
proof -
  let ?layout = "layoutOf (computeLayout B S ids)"
  let ?warnings = "warningsOf (computeLayout B S ids)"
  from assms(1) have unc: "isUncappedSlot k" by (simp add: isUncappedSlot_def)
  with slot_kinds [of k] have np: "\<not> isPyramidSlot k" by blast
  from unc have def: "k \<noteq> ''undefined''" by (simp add: named_slots_defined)
  have kept: "list_all2 sameItem (filter (\<lambda>p. p_slot p = Some k) ?layout) (routed B S ids k)"
    using slotOutcome_kept [of B S ids k] unc np layout_by_slot [OF assms(2), of k S]
    by (simp add: keptItems_def entryKey_eq_iff [OF def])
  have ids: "map p_id (filter (\<lambda>p. p_slot p = Some k) ?layout) = routedIds B S k ids"
    using list_all2_sameItem_ids [OF kept] routed_ids [OF def, of B S ids] by simp
  from warnings_split [OF assms(2), of S k] obtain ws1 ws2
    where "?warnings = ws1 @ slotWarnings k (length (routed B S ids k)) @ ws2"
      and "warningsOf (computeLayout B S (withoutSlot B S k ids)) = ws1 @ ws2"
    by blast
  with unc np have inv: "?warnings = warningsOf (computeLayout B S (withoutSlot B S k ids))"
    by (simp add: slotWarnings_def)
  show ?thesis
  proof (intro exI conjI)
    show "computeLayout B S ids = Inr (?layout, ?warnings)"
      using assms(2) by (rule computeLayout_Inr)
    show "map p_id (filter (\<lambda>p. p_slot p = Some k) ?layout) = routedIds B S k ids" by (rule ids)
    show "list_all2 sameItem (filter (\<lambda>p. p_slot p = Some k) ?layout) (routed B S ids k)"
      by (rule kept)
    show "?warnings = warningsOf (computeLayout B S (withoutSlot B S k ids))" by (rule inv)
  qed
qed

text \<open>
  An identifier for which no entry is filed, and on which the run does not throw, can be
  inserted anywhere in a selection without changing the result. These are the unknown
  identifiers that are not inherited names (or any unknown identifier when the slot
  table has no key \<^verbatim>\<open>"undefined"\<close>), and the items whose slot is unknown to the slot table
  and not an inherited name.
\<close>

lemma skipped_identifier:
  assumes "(B i = None \<and> (i \<notin> set protoNames \<or> S ''undefined'' = None))
           \<or> (\<exists>spec. B i = Some spec \<and> S (b_slot spec) = None \<and> b_slot spec \<notin> set protoNames)"
  shows "computeLayout B S (xs @ i # ys) = computeLayout B S (xs @ ys)"
proof -
  from assms have none: "entryOf B S i = None"
    by (auto simp: entryOf_def getProp_def specField_def propertyKey_def split: option.splits)
  from assms undefined_not_inherited have calm: "\<not> throwsOn B i"
    by (auto simp: throwsOn_def getProp_def specField_def propertyKey_def split: option.splits)
  from none have same: "filed B S (xs @ i # ys) = filed B S (xs @ ys)"
    by (simp add: filed_append filed_Cons)
  from calm have "completes B (xs @ i # ys) = completes B (xs @ ys)"
    by (simp add: completes_def)
  with same show ?thesis
    by (simp add: computeLayout_outcomes slotOutcome_def routed_def occupiedSlots_def)
qed

text \<open>
  Every placement comes from an entry of the item table, with slot, label, color, asset
  and \<open>z\<close> copied from the tables, unless its identifier is an inherited name that the
  item table does not have.
\<close>

lemma placement_fields:
  assumes "completes B ids" and "p \<in> set (layoutOf (computeLayout B S ids))"
  shows "p_id p \<in> set ids \<and>
         ((\<exists>spec box. B (p_id p) = Some spec \<and> S (b_slot spec) = Some box
             \<and> p_slot p = Some (b_slot spec) \<and> p_label p = Some (b_label spec)
             \<and> p_color p = Some (b_color spec) \<and> p_asset p = b_asset spec
             \<and> p_z p = slot_z box)
          \<or> (B (p_id p) = None \<and> p_id p \<in> set protoNames))"
proof -
  from layout_member [OF assms] obtain e
    where e: "e \<in> set (filed B S ids)" "sameItem p e" by blast
  from in_filedD [OF e(1)] obtain i spec box
    where f: "i \<in> set ids" "getProp B i = spec" "spec \<noteq> Missing"
      "S (propertyKey (specField b_slot spec)) = Some box" "e = mkEntry i spec box"
    by blast
  show ?thesis
  proof (cases spec)
    case (Own b)
    with f e(2) show ?thesis
      by (auto simp: sameItem_def getProp_cases specField_def specAsset_def propertyKey_def)
  next
    case Inherited
    with f e(2) show ?thesis
      by (auto simp: sameItem_def getProp_cases)
  next
    case Missing
    with f show ?thesis by simp
  qed
qed

text \<open>
  Repeated identifiers are not deduplicated: an item of the medal row or of the vertical
  stack is placed once per occurrence in the selection.
\<close>

lemma count_filed:
  assumes "entryOf B S i \<noteq> None"
  shows "length (filter (\<lambda>e. p_id e = i) (filed B S ids)) = count_list ids i"
proof (induction ids)
  case Nil
  show ?case by simp
next
  case (Cons a ids)
  show ?case
  proof (cases "entryOf B S a")
    case None
    with assms have "a \<noteq> i" by auto
    with None Cons show ?thesis by (simp add: filed_Cons)
  next
    case (Some e)
    from entryOf_SomeD [OF Some] have "p_id e = a" by auto
    with Some Cons show ?thesis by (simp add: filed_Cons)
  qed
qed

lemma length_filter_id:
  "length (filter (\<lambda>p. p_id p = i) ps) = length (filter (\<lambda>x. x = i) (map p_id ps))"
  by (simp add: filter_map comp_def)

lemma repeated_identifiers_placed_each_time:
  assumes "B i = Some spec" and "S (b_slot spec) = Some box"
    and "b_slot spec = ''medalsBelowRightPocket'' \<or> b_slot spec = ''rightSleeveProficiency''"
    and "completes B ids"
  shows "\<exists>layout warnings. computeLayout B S ids = Inr (layout, warnings)
           \<and> length (filter (\<lambda>p. p_id p = i) layout) = count_list ids i
           \<and> (\<forall>p\<in>set (filter (\<lambda>p. p_id p = i) layout).
                 p_label p = Some (b_label spec) \<and> p_color p = Some (b_color spec))"
proof -
  let ?layout = "layoutOf (computeLayout B S ids)"
  let ?k = "b_slot spec"
  from assms have unc: "isUncappedSlot ?k" by (simp add: isUncappedSlot_def)
  from assms have res: "entryOf B S i = Some (mkEntry i (Own spec) box)"
    by (simp add: entryOf_def getProp_def specField_def propertyKey_def)
  have entry: "e = mkEntry i (Own spec) box" if "e \<in> set (filed B S ids)" "p_id e = i" for e
    using in_filedD [OF that(1)] that(2) assms
    by (auto simp: getProp_def specField_def propertyKey_def)
  have fields: "entryKey p = ?k \<and> p_label p = Some (b_label spec) \<and> p_color p = Some (b_color spec)"
    if "p \<in> set ?layout" "p_id p = i" for p
  proof -
    from layout_member [OF assms(4) that(1)] obtain e
      where e: "e \<in> set (filed B S ids)" "sameItem p e" by blast
    with that(2) have "p_id e = i" by (simp add: sameItem_def)
    from entry [OF e(1) this] e(2) show ?thesis
      by (simp add: sameItem_def entryKey_def specField_def propertyKey_def)
  qed
  have "filter (\<lambda>p. p_id p = i) ?layout = filter (\<lambda>p. p_id p = i) (filter (\<lambda>p. entryKey p = ?k) ?layout)"
    using fields by (auto intro: filter_cong)
  then have byslot: "filter (\<lambda>p. p_id p = i) ?layout =
      filter (\<lambda>p. p_id p = i) (fst (slotOutcome B S ids ?k))"
    by (simp add: layout_by_slot [OF assms(4)])
  from unc slot_kinds [of ?k] have "\<not> isPyramidSlot ?k" by blast
  with unc have "list_all2 sameItem (fst (slotOutcome B S ids ?k)) (routed B S ids ?k)"
    using slotOutcome_kept [of B S ids ?k] by (simp add: keptItems_def)
  then have "map p_id (fst (slotOutcome B S ids ?k)) = map p_id (routed B S ids ?k)"
    by (rule list_all2_sameItem_ids)
  then have "length (filter (\<lambda>p. p_id p = i) (fst (slotOutcome B S ids ?k))) =
      length (filter (\<lambda>p. p_id p = i) (routed B S ids ?k))"
    by (simp add: length_filter_id)
  also have "filter (\<lambda>p. p_id p = i) (routed B S ids ?k) = filter (\<lambda>e. p_id e = i) (filed B S ids)"
  proof -
    have "entryKey e = ?k" if "e \<in> set (filed B S ids)" "p_id e = i" for e
      using entry [OF that] by (simp add: specField_def propertyKey_def)
    then show ?thesis
      unfolding routed_def filter_filter by (intro filter_cong) auto
  qed
  also have "length \<dots> = count_list ids i"
    using res by (simp add: count_filed)
  finally have count: "length (filter (\<lambda>p. p_id p = i) ?layout) = count_list ids i"
    by (simp add: byslot)
  have same: "\<forall>p\<in>set (filter (\<lambda>p. p_id p = i) ?layout).
      p_label p = Some (b_label spec) \<and> p_color p = Some (b_color spec)"
    using fields by simp
  from computeLayout_Inr [OF assms(4), of S] count same show ?thesis by blast
qed

section \<open>Separation within a slot, in exact arithmetic\<close>

text \<open>
  With numbers read as exact reals, the placements of one slot keep their distance: the
  later one lies to the right of the earlier one or below it, at least the gap of the
  slot's rule away, so they do not overlap. This is a fact of exact arithmetic only. The
  source computes the offsets in binary64, where a sum is rounded: at coordinates of
  large magnitude the offset of a tile is absorbed by the rounding and tiles coincide.
\<close>

lemma slotGap_nonneg: "0 \<le> slotGap k"
  by (simp add: slotGap_def)

lemma separated_not_overlaps:
  "0 \<le> g \<Longrightarrow> separated g p q \<Longrightarrow> \<not> overlaps p q"
  by (auto simp: separated_def overlaps_def)

lemma forEachIndexed_sorted_wrt:
  assumes "\<And>a b i j. i < j \<Longrightarrow> R (f a i) (f b j)"
  shows "sorted_wrt R (forEachIndexed f items)"
  using assms by (simp add: sorted_wrt_iff_nth_less nth_forEachIndexed)

lemma pyramidRule_separated: "sorted_wrt (separated 8) (fst (pyramidRule box k items))"
  using list_shape [of items]
  by (auto simp: pyramidRule_0 pyramidRule_1 pyramidRule_2 pyramidRule_3 separated_def
           simp del: One_nat_def)

lemma medalRule_separated: "sorted_wrt (separated 10) (medalRule box items)"
  unfolding medalRule_def Let_def
  by (rule forEachIndexed_sorted_wrt) (auto simp: separated_def)

lemma stackRule_separated: "sorted_wrt (separated 8) (stackRule box items)"
  unfolding stackRule_def Let_def
  by (rule forEachIndexed_sorted_wrt) (auto simp: separated_def)

lemma arrange_separated:
  assumes "arrange box k items = Inr (ps, ws)"
  shows "sorted_wrt (separated (slotGap k)) ps"
proof -
  have "length ps \<le> 1 \<or> (\<exists>b. box = Some b \<and> (isPyramidSlot k \<or> isUncappedSlot k))"
    using assms
    by (cases box; cases items)
       (auto simp: arrange_def isPyramidSlot_def isUncappedSlot_def split: if_splits)
  then show ?thesis
  proof
    assume "length ps \<le> 1"
    then show ?thesis by (cases ps) auto
  next
    assume "\<exists>b. box = Some b \<and> (isPyramidSlot k \<or> isUncappedSlot k)"
    then obtain b where b: "box = Some b" and kind: "isPyramidSlot k \<or> isUncappedSlot k"
      by blast
    from kind show ?thesis
    proof
      assume pyr: "isPyramidSlot k"
      then have "slotGap k = 8" by (auto simp: slotGap_def isPyramidSlot_def)
      with assms b pyr pyramidRule_separated [of b k items] show ?thesis
        by (auto simp: arrange_pyramid)
    next
      assume "isUncappedSlot k"
      then consider "k = ''medalsBelowRightPocket''" | "k = ''rightSleeveProficiency''"
        by (auto simp: isUncappedSlot_def)
      then show ?thesis
      proof cases
        case 1
        with assms b medalRule_separated [of b items] show ?thesis
          by (auto simp: arrange_medals slotGap_def)
      next
        case 2
        with assms b stackRule_separated [of b items] show ?thesis
          by (auto simp: arrange_stack slotGap_def)
      qed
    qed
  qed
qed

lemma slotOutcome_separated:
  "sorted_wrt (separated (slotGap k)) (fst (slotOutcome B S ids k))"
proof (cases "k \<in> set (occupiedSlots B S ids)")
  case True
  from slotOutcome_occupied [OF True]
  have "arrange (S k) k (routed B S ids k) = Inr (slotOutcome B S ids k)" .
  then show ?thesis
    using arrange_separated [of "S k" k "routed B S ids k" "fst (slotOutcome B S ids k)" "snd (slotOutcome B S ids k)"]
    by simp
next
  case False
  then have "routed B S ids k = []" using routed_nonempty_iff [of B S ids k] by simp
  then show ?thesis by (simp add: slotOutcome_empty)
qed

lemma sorted_wrt_concat_keys:
  assumes "distinct ks"
    and "\<And>k p. k \<in> set ks \<Longrightarrow> p \<in> set (F k) \<Longrightarrow> sl p = k"
    and "\<And>k. k \<in> set ks \<Longrightarrow> sorted_wrt (Q k) (F k)"
  shows "sorted_wrt (\<lambda>p q. sl p = sl q \<longrightarrow> Q (sl p) p q) (concat (map F ks))"
  using assms
proof (induction ks)
  case Nil
  show ?case by simp
next
  case (Cons a ks)
  have block: "sorted_wrt (\<lambda>p q. sl p = sl q \<longrightarrow> Q (sl p) p q) (F a)"
  proof (rule sorted_wrt_mono_rel [OF _ Cons.prems(3) [of a]])
    fix p q assume "p \<in> set (F a)" "q \<in> set (F a)" "Q a p q"
    with Cons.prems(2) [of a] show "sl p = sl q \<longrightarrow> Q (sl p) p q" by simp
  qed simp
  have rest: "sorted_wrt (\<lambda>p q. sl p = sl q \<longrightarrow> Q (sl p) p q) (concat (map F ks))"
    using Cons by simp
  have across: "sl p \<noteq> sl q" if "p \<in> set (F a)" "q \<in> set (concat (map F ks))" for p q
  proof -
    from that(2) obtain k where "k \<in> set ks" "q \<in> set (F k)" by auto
    with Cons.prems(2) [of k q] Cons.prems(2) [of a p] that(1) Cons.prems(1)
    show ?thesis by auto
  qed
  show ?case
    using block rest across by (simp add: sorted_wrt_append)
qed

lemma layout_separated:
  assumes "completes B ids"
  shows "sorted_wrt (\<lambda>p q. entryKey p = entryKey q \<longrightarrow> separated (slotGap (entryKey p)) p q)
           (layoutOf (computeLayout B S ids))"
proof -
  have "sorted_wrt (\<lambda>p q. entryKey p = entryKey q \<longrightarrow> separated (slotGap (entryKey p)) p q)
          (concat (map (\<lambda>k. fst (slotOutcome B S ids k)) (keyOrder (occupiedSlots B S ids))))"
    by (rule sorted_wrt_concat_keys)
       (auto simp: occupiedSlots_def slotOutcome_separated dest: slotOutcome_slot)
  then show ?thesis using assms by (simp add: computeLayout_outcomes layoutOf_def)
qed

lemma no_overlap_in_exact_arithmetic:
  assumes "i < j" "j < length (layoutOf (computeLayout B S ids))"
    and "p_slot (layoutOf (computeLayout B S ids) ! i) = p_slot (layoutOf (computeLayout B S ids) ! j)"
  shows "\<not> overlaps (layoutOf (computeLayout B S ids) ! i) (layoutOf (computeLayout B S ids) ! j)"
proof (cases "completes B ids")
  case True
  let ?layout = "layoutOf (computeLayout B S ids)"
  from assms(3) have "entryKey (?layout ! i) = entryKey (?layout ! j)"
    by (simp add: entryKey_def)
  with layout_separated [OF True, of S] assms(1,2)
  have "separated (slotGap (entryKey (?layout ! i))) (?layout ! i) (?layout ! j)"
    by (simp add: sorted_wrt_iff_nth_less)
  with separated_not_overlaps [OF slotGap_nonneg] show ?thesis by blast
next
  case False
  with assms(2) show ?thesis by (simp add: computeLayout_throws layoutOf_def)
qed

section \<open>Properties of the text fit estimator\<close>

text \<open>
  Claim C2, as the code has it. With the measurement oracle available and a non-empty
  label, \<open>fitFontSize\<close> returns \<open>floor (max 10 (min heightBound widthBound))\<close>, where
  \<open>heightBound = max 10 (boxH * maxHeightRatio)\<close> and
  \<open>widthBound = (max 10 (boxW - 2 * padding) / measured) * 100\<close>. The result is at least 10
  and at most \<open>floor (max 10 (boxH * maxHeightRatio))\<close>; it is at most
  \<open>floor (boxH * maxHeightRatio)\<close> whenever that product is at least 10.
\<close>

theorem fitFontSize_bounds:
  assumes "label \<noteq> []"
  shows "fitFontSize (Some mt) label boxW boxH pad ratio =
           \<lfloor>max 10 (min (max 10 (boxH * nullish ratio 0.7))
                        ((max 10 (boxW - nullish pad 8 * 2) / measuredWidth mt label) * 100))\<rfloor>
         \<and> 10 \<le> fitFontSize (Some mt) label boxW boxH pad ratio
         \<and> fitFontSize (Some mt) label boxW boxH pad ratio \<le> \<lfloor>max 10 (boxH * nullish ratio 0.7)\<rfloor>
         \<and> (10 \<le> boxH * nullish ratio 0.7 \<longrightarrow>
              fitFontSize (Some mt) label boxW boxH pad ratio \<le> \<lfloor>boxH * nullish ratio 0.7\<rfloor>)"
proof -
  have m: "measuredWidth mt label \<noteq> 0"
    using assms by (auto simp: measuredWidth_def)
  define hb where "hb = max 10 (boxH * nullish ratio 0.7)"
  define wb where "wb = (max 10 (boxW - nullish pad 8 * 2) / measuredWidth mt label) * 100"
  have r: "fitFontSize (Some mt) label boxW boxH pad ratio = max 10 \<lfloor>min hb wb\<rfloor>"
    using m by (simp add: fitFontSize_def fontByWidth_def Let_def hb_def wb_def)
  have fm: "max 10 \<lfloor>min hb wb\<rfloor> = \<lfloor>max 10 (min hb wb)\<rfloor>"
    by (simp add: max_def le_floor_iff)
  have hb10: "10 \<le> hb" by (simp add: hb_def)
  have "(10::int) \<le> \<lfloor>hb\<rfloor>"
    using hb10 by (simp add: le_floor_iff)
  moreover have "\<lfloor>min hb wb\<rfloor> \<le> \<lfloor>hb\<rfloor>"
    by (rule floor_mono) simp
  ultimately have ub: "max 10 \<lfloor>min hb wb\<rfloor> \<le> \<lfloor>hb\<rfloor>"
    by simp
  show ?thesis
    unfolding r using fm ub hb10 by (auto simp: hb_def wb_def max_def)
qed

text \<open>
  A three-letter label in a 90 by 60 tile, measured at 60 units per character: the width
  bound (41.1) is the tighter one.
\<close>

theorem fitFontSize_bounds_witness:
  "''SGT'' \<noteq> [] \<and> (10::real) \<le> 60 * nullish None 0.7
   \<and> fitFontSize (Some (\<lambda>s. 60 * real (length s))) ''SGT'' 90 60 None None = 41
   \<and> fitFontSize (Some (\<lambda>s. 60 * real (length s))) ''SGT'' 90 60 None None
        \<le> \<lfloor>(60::real) * nullish None 0.7\<rfloor>"
  using fitFontSize_bounds [of "''SGT''" "\<lambda>s. 60 * real (length s)" 90 60 None None]
  by (simp add: measuredWidth_def nullish_def)

text \<open>
  Claim C2 as the specification words it fails for a low box: with \<open>boxH = 10\<close> and the
  default ratio the height bound rounded down is 7, and the result is the minimum size 10.
\<close>

theorem fitFontSize_height_bound_counterexample:
  "''A'' \<noteq> [] \<and> (0::real) < 100 \<and> (0::real) < 10
   \<and> \<not> fitFontSize (Some (\<lambda>s. 100)) ''A'' 100 10 None None \<le> \<lfloor>(10::real) * 0.7\<rfloor>"
  by (simp add: fitFontSize_def measuredWidth_def fontByWidth_def nullish_def Let_def)

text \<open>
  Claim C10. \<open>fitFontSize\<close> is a total function, so it returns a size for every label.
  With an oracle that measures \<open>label\<close> at a width other than 0, the width bound divides
  by that width. When the oracle measures 0 and the label is not empty, the width bound
  divides by the estimate \<open>100 * 0.6 * length label\<close> instead: the result is the one an
  oracle returning that estimate would give. When the oracle measures 0 and the label is
  empty, the estimate is 0 as well, the width bound is \<^verbatim>\<open>Infinity\<close>, and the result is
  \<open>floor (max 10 (boxH * maxHeightRatio))\<close>. Without an oracle the result is
  \<open>floor (min 18 heightBound)\<close>.
\<close>

theorem fitFontSize_zero_width:
  "fitFontSize (Some mt) label boxW boxH pad ratio =
     (if mt label \<noteq> 0 then
        max 10 \<lfloor>min (max 10 (boxH * nullish ratio 0.7))
                      ((max 10 (boxW - nullish pad 8 * 2) / mt label) * 100)\<rfloor>
      else if label \<noteq> [] then
        max 10 \<lfloor>min (max 10 (boxH * nullish ratio 0.7))
                      ((max 10 (boxW - nullish pad 8 * 2) / (100 * 0.6 * real (length label))) * 100)\<rfloor>
      else \<lfloor>max 10 (boxH * nullish ratio 0.7)\<rfloor>)
   \<and> (mt label = 0 \<longrightarrow>
        fitFontSize (Some mt) label boxW boxH pad ratio =
        fitFontSize (Some (\<lambda>s. 100 * 0.6 * real (length s))) label boxW boxH pad ratio)
   \<and> (mt [] = 0 \<longrightarrow>
        fontByWidth (max 10 (boxW - nullish pad 8 * 2)) (measuredWidth mt []) = Infinity)
   \<and> fitFontSize None label boxW boxH pad ratio = \<lfloor>min 18 (max 10 (boxH * nullish ratio 0.7))\<rfloor>"
proof (intro conjI impI)
  let ?hb = "max 10 (boxH * nullish ratio 0.7)"
  have floor_hb: "max 10 \<lfloor>?hb\<rfloor> = \<lfloor>?hb\<rfloor>"
    by (simp add: max_def le_floor_iff)
  show "fitFontSize (Some mt) label boxW boxH pad ratio =
     (if mt label \<noteq> 0 then
        max 10 \<lfloor>min ?hb ((max 10 (boxW - nullish pad 8 * 2) / mt label) * 100)\<rfloor>
      else if label \<noteq> [] then
        max 10 \<lfloor>min ?hb
                      ((max 10 (boxW - nullish pad 8 * 2) / (100 * 0.6 * real (length label))) * 100)\<rfloor>
      else \<lfloor>?hb\<rfloor>)"
  proof (cases "mt label \<noteq> 0")
    case True
    then show ?thesis
      by (simp add: fitFontSize_def measuredWidth_def fontByWidth_def Let_def)
  next
    case zero: False
    show ?thesis
    proof (cases "label = []")
      case True
      with zero floor_hb show ?thesis
        by (simp add: fitFontSize_def measuredWidth_def fontByWidth_def Let_def)
    next
      case False
      with zero show ?thesis
        by (simp add: fitFontSize_def measuredWidth_def fontByWidth_def Let_def)
    qed
  qed
next
  assume "mt label = 0"
  then have "measuredWidth mt label = measuredWidth (\<lambda>s. 100 * 0.6 * real (length s)) label"
    by (simp add: measuredWidth_def)
  then show "fitFontSize (Some mt) label boxW boxH pad ratio =
        fitFontSize (Some (\<lambda>s. 100 * 0.6 * real (length s))) label boxW boxH pad ratio"
    by (simp add: fitFontSize_def Let_def)
next
  assume "mt [] = 0"
  then show "fontByWidth (max 10 (boxW - nullish pad 8 * 2)) (measuredWidth mt []) = Infinity"
    by (simp add: measuredWidth_def fontByWidth_def)
next
  show "fitFontSize None label boxW boxH pad ratio = \<lfloor>min 18 (max 10 (boxH * nullish ratio 0.7))\<rfloor>"
    by (simp add: fitFontSize_def Let_def)
qed

text \<open>
  An oracle that measures every text at width 0. The label \<open>ab\<close> is estimated at 120
  units: in a box 90 wide the width bound is 61.6, in a box 30 wide it is 11.6, both
  below the height bound 140. The empty label gets the height bound.
\<close>

theorem fitFontSize_zero_width_witness:
  "(\<lambda>s. 0) ''ab'' = (0::real) \<and> ''ab'' \<noteq> []
   \<and> fitFontSize (Some (\<lambda>s. 0)) ''ab'' 90 200 None None = 61
   \<and> fitFontSize (Some (\<lambda>s. 0)) ''ab'' 30 200 None None = 11
   \<and> fitFontSize (Some (\<lambda>s. 0)) [] 90 200 None None = 140
   \<and> fitFontSize (Some (\<lambda>s. 0)) [] 90 60 None None = 42"
  using fitFontSize_zero_width [where mt = "\<lambda>s. 0" and label = "''ab''" and boxW = 90
      and boxH = 200 and pad = None and ratio = None]
    fitFontSize_zero_width [where mt = "\<lambda>s. 0" and label = "''ab''" and boxW = 30
      and boxH = 200 and pad = None and ratio = None]
    fitFontSize_zero_width [where mt = "\<lambda>s. 0" and label = "[]" and boxW = 90
      and boxH = 200 and pad = None and ratio = None]
    fitFontSize_zero_width [where mt = "\<lambda>s. 0" and label = "[]" and boxW = 90
      and boxH = 60 and pad = None and ratio = None]
  by (simp add: nullish_def)

section \<open>Properties of the layout engine\<close>

text \<open>
  Claim C1, as the code has it, for a selection on which the run completes. For a pyramid
  slot \<open>k\<close> at most 3 placements are produced: the first 3 identifiers routed to \<open>k\<close>, in
  selection order, each the filed entry up to geometry. The warnings of the run are
  those of the run without the items of \<open>k\<close>, with the one warning
  \<^verbatim>\<open><slot> allows max 3; extra selections ignored.\<close> inserted exactly when more than 3
  resolvable items are routed to \<open>k\<close>: the slot contributes that warning and no other,
  and none for 3 items or fewer. The text has no colon after the slot identifier.
\<close>

theorem pyramid_cap:
  assumes "k = ''safBadges'' \<or> k = ''foreignBadges''" and "completes B ids"
  shows "\<exists>layout warnings ws1 ws2.
           computeLayout B S ids = Inr (layout, warnings)
           \<and> length (filter (\<lambda>p. p_slot p = Some k) layout) \<le> 3
           \<and> map p_id (filter (\<lambda>p. p_slot p = Some k) layout) = take 3 (routedIds B S k ids)
           \<and> list_all2 sameItem (filter (\<lambda>p. p_slot p = Some k) layout) (take 3 (routed B S ids k))
           \<and> warnings =
               ws1 @ (if 3 < length (routedIds B S k ids)
                      then [k @ '' allows max 3; extra selections ignored.''] else []) @ ws2
           \<and> warningsOf (computeLayout B S (withoutSlot B S k ids)) = ws1 @ ws2
           \<and> ((k @ '' allows max 3; extra selections ignored.'') \<in> set warnings
                \<longleftrightarrow> 3 < length (routedIds B S k ids))"
proof -
  let ?layout = "layoutOf (computeLayout B S ids)"
  let ?warnings = "warningsOf (computeLayout B S ids)"
  let ?text = "k @ '' allows max 3; extra selections ignored.''"
  from assms(1) have pyr: "isPyramidSlot k" by (simp add: isPyramidSlot_def)
  then have def: "k \<noteq> ''undefined''" by (simp add: named_slots_defined)
  have n: "length (routed B S ids k) = length (routedIds B S k ids)"
    using routed_ids [OF def, of B S ids, THEN arg_cong, of length] by simp
  have sel: "filter (\<lambda>p. p_slot p = Some k) ?layout = fst (slotOutcome B S ids k)"
    using layout_by_slot [OF assms(2), of k S] by (simp add: entryKey_eq_iff [OF def])
  have kept: "list_all2 sameItem (filter (\<lambda>p. p_slot p = Some k) ?layout) (take 3 (routed B S ids k))"
    using slotOutcome_kept [of B S ids k] pyr by (simp add: sel keptItems_def)
  then have "length (filter (\<lambda>p. p_slot p = Some k) ?layout) = length (take 3 (routed B S ids k))"
    by (rule list_all2_lengthD)
  then have len: "length (filter (\<lambda>p. p_slot p = Some k) ?layout) \<le> 3" by simp
  have ids: "map p_id (filter (\<lambda>p. p_slot p = Some k) ?layout) = take 3 (routedIds B S k ids)"
    using list_all2_sameItem_ids [OF kept] routed_ids [OF def, of B S ids]
    by (simp add: take_map [symmetric])
  have emitted: "slotWarnings k (length (routed B S ids k)) =
      (if 3 < length (routedIds B S k ids) then [?text] else [])"
    using pyr by (simp add: slotWarnings_def n)
  from warnings_split [OF assms(2), of S k] obtain ws1 ws2
    where split: "?warnings = ws1 @ slotWarnings k (length (routed B S ids k)) @ ws2"
      and rest: "warningsOf (computeLayout B S (withoutSlot B S k ids)) = ws1 @ ws2"
    by blast
  have warn: "?text \<in> set ?warnings \<longleftrightarrow> 3 < length (routedIds B S k ids)"
    using pyr by (simp add: set_warnings [OF assms(2)] pyramid_warning_iff n)
  show ?thesis
  proof (intro exI conjI)
    show "computeLayout B S ids = Inr (?layout, ?warnings)"
      using assms(2) by (rule computeLayout_Inr)
    show "length (filter (\<lambda>p. p_slot p = Some k) ?layout) \<le> 3" by (rule len)
    show "map p_id (filter (\<lambda>p. p_slot p = Some k) ?layout) = take 3 (routedIds B S k ids)"
      by (rule ids)
    show "list_all2 sameItem (filter (\<lambda>p. p_slot p = Some k) ?layout) (take 3 (routed B S ids k))"
      by (rule kept)
    show "?warnings = ws1 @ (if 3 < length (routedIds B S k ids) then [?text] else []) @ ws2"
      using split emitted by simp
    show "warningsOf (computeLayout B S (withoutSlot B S k ids)) = ws1 @ ws2" by (rule rest)
    show "?text \<in> set ?warnings \<longleftrightarrow> 3 < length (routedIds B S k ids)" by (rule warn)
  qed
qed

text \<open>
  Four service badges: the first three are placed and the warning is emitted.
\<close>

theorem pyramid_cap_witness:
  "(''safBadges'' = ''safBadges'' \<or> ''safBadges'' = ''foreignBadges'')
   \<and> completes sampleBadges [''a'', ''b'', ''c'', ''d'']
   \<and> routedIds sampleBadges sampleSlots ''safBadges'' [''a'', ''b'', ''c'', ''d''] =
       [''a'', ''b'', ''c'', ''d'']
   \<and> map p_id (filter (\<lambda>p. p_slot p = Some ''safBadges'')
         (layoutOf (computeLayout sampleBadges sampleSlots [''a'', ''b'', ''c'', ''d'']))) =
       [''a'', ''b'', ''c'']
   \<and> ''safBadges allows max 3; extra selections ignored.''
         \<in> set (warningsOf (computeLayout sampleBadges sampleSlots [''a'', ''b'', ''c'', ''d'']))"
proof -
  let ?ids = "[''a'', ''b'', ''c'', ''d'']"
  have k: "''safBadges'' = ''safBadges'' \<or> ''safBadges'' = ''foreignBadges''" by simp
  have c: "completes sampleBadges ?ids" by code_simp
  have r: "routedIds sampleBadges sampleSlots ''safBadges'' ?ids = [''a'', ''b'', ''c'', ''d'']"
    by code_simp
  from pyramid_cap [OF k c, of sampleSlots]
  obtain layout warnings
    where "computeLayout sampleBadges sampleSlots ?ids = Inr (layout, warnings)"
      and "map p_id (filter (\<lambda>p. p_slot p = Some ''safBadges'') layout) =
             take 3 (routedIds sampleBadges sampleSlots ''safBadges'' ?ids)"
      and "(''safBadges'' @ '' allows max 3; extra selections ignored.'') \<in> set warnings
             \<longleftrightarrow> 3 < length (routedIds sampleBadges sampleSlots ''safBadges'' ?ids)"
    by blast
  with k c r show ?thesis by (simp add: layoutOf_def warningsOf_def)
qed

text \<open>
  Claim C1 as the specification words it fails on the same selection: the list of
  warnings is the single text without a colon, so the text with the colon is not emitted
  although four resolvable items are routed to the slot.
\<close>

theorem pyramid_warning_colon_counterexample:
  "completes sampleBadges [''a'', ''b'', ''c'', ''d'']
   \<and> 3 < length (routedIds sampleBadges sampleSlots ''safBadges'' [''a'', ''b'', ''c'', ''d''])
   \<and> computeLayout sampleBadges sampleSlots [''a'', ''b'', ''c'', ''d''] =
       Inr (layoutOf (computeLayout sampleBadges sampleSlots [''a'', ''b'', ''c'', ''d'']),
            [''safBadges allows max 3; extra selections ignored.''])
   \<and> ''safBadges: allows max 3; extra selections ignored.''
         \<notin> set (warningsOf (computeLayout sampleBadges sampleSlots [''a'', ''b'', ''c'', ''d'']))"
  by code_simp

text \<open>
  Claim C3 fails in the code for a single-occupancy slot whose identifier is a name that
  every object inherits. The slot table has a slot \<^verbatim>\<open>constructor\<close> and the item \<open>star\<close>
  resolves to it, so one placement with the box of that slot is due. At line 247
  \<^verbatim>\<open>bySlot["constructor"]\<close> is the inherited function, \<^verbatim>\<open>??=\<close> assigns nothing, and line
  248 calls a \<^verbatim>\<open>push\<close> that does not exist: the run throws and produces nothing. Lemma
  \<open>single_occupancy\<close> states the claim for the selections on which the run completes.
\<close>

theorem single_occupancy_inherited_slot_name:
  "sampleBadges ''star'' = Some (sampleBadge ''S'' ''rank'' ''constructor'' ''#000000'')
   \<and> exoticSlots ''constructor'' =
       Some \<lparr>slot_x = 100, slot_y = 600, slot_w = 80, slot_h = 40, slot_z = 6\<rparr>
   \<and> routedIds sampleBadges exoticSlots ''constructor'' [''star''] = [''star'']
   \<and> computeLayout sampleBadges exoticSlots [''star''] = Inl TypeError"
  by code_simp

text \<open>
  Claim C4 fails in the code when the selection also holds an item whose slot identifier
  is an inherited name. Two medals are routed to the medal row, so two placements are
  due there; the item \<open>odd\<close> has the slot \<^verbatim>\<open>toString\<close>, on which line 248 throws, and the
  run produces no placement at all. Without \<open>odd\<close> both medals are placed. Lemma
  \<open>uncapped_slots_place_every_item\<close> states the claim for the selections on which the
  run completes.
\<close>

theorem medal_row_lost_by_inherited_slot_name:
  "routedIds sampleBadges sampleSlots ''medalsBelowRightPocket'' [''x'', ''y'', ''odd''] = [''x'', ''y'']
   \<and> sampleBadges ''odd'' = Some (sampleBadge ''O'' ''saf'' ''toString'' ''#000000'')
   \<and> computeLayout sampleBadges sampleSlots [''x'', ''y'', ''odd''] = Inl TypeError
   \<and> map p_id (layoutOf (computeLayout sampleBadges sampleSlots [''x'', ''y''])) = [''x'', ''y'']"
  by code_simp

text \<open>
  Claim C5 fails in the code for an item whose slot identifier is unknown to the slot
  table but inherited from \<^verbatim>\<open>Object.prototype\<close>: at line 244 \<^verbatim>\<open>slots["toString"]\<close> is the
  inherited function, the test of line 245 does not skip the item, and line 248 throws,
  so the placement of \<open>sergeant\<close> is lost with it. It also fails for an identifier unknown
  to the item table but inherited: \<^verbatim>\<open>badges["valueOf"]\<close> is a function, its \<^verbatim>\<open>slot\<close> is
  \<^verbatim>\<open>undefined\<close>, and with a slot \<^verbatim>\<open>undefined\<close> in the slot table the identifier is placed.
  Lemma \<open>skipped_identifier\<close> states the claim for the other identifiers.
\<close>

theorem unknown_slot_not_skipped:
  "sampleBadges ''odd'' = Some (sampleBadge ''O'' ''saf'' ''toString'' ''#000000'')
   \<and> sampleSlots ''toString'' = None
   \<and> computeLayout sampleBadges sampleSlots [''sergeant'', ''odd''] = Inl TypeError
   \<and> map p_id (layoutOf (computeLayout sampleBadges sampleSlots [''sergeant''])) = [''sergeant'']
   \<and> sampleBadges ''valueOf'' = None
   \<and> map p_id (layoutOf (computeLayout sampleBadges exoticSlots [''valueOf''])) = [''valueOf'']"
  by code_simp


text \<open>
  Claim C8, as the code has it. A run that completes returns as its warnings the
  warnings of the occupied slots, in the order in which \<^verbatim>\<open>Object.entries\<close> visits the keys
  of the grouping: the slot identifiers that are array indices first, in ascending
  numeric order, then the others in the order of their first occurrence in the
  selection. Every occupied slot is visited once and contributes at most one warning,
  the one of its rule for the number of entries routed to it. When no occupied slot
  identifier is an array index the order is the first-occurrence order. A run that does
  not complete throws, and returns no warning.
\<close>

theorem warnings_in_iteration_order:
  "computeLayout B S ids =
     (if completes B ids
      then Inr (layoutOf (computeLayout B S ids),
                concat (map (\<lambda>k. slotWarnings k (length (routed B S ids k)))
                          (keyOrder (occupiedSlots B S ids))))
      else Inl TypeError)
   \<and> distinct (keyOrder (occupiedSlots B S ids))
   \<and> (\<forall>k. length (slotWarnings k (length (routed B S ids k))) \<le> 1)
   \<and> ((\<forall>k\<in>set (occupiedSlots B S ids). \<not> isArrayIndex k) \<longrightarrow>
        keyOrder (occupiedSlots B S ids) = occupiedSlots B S ids)"
proof (intro conjI)
  show "computeLayout B S ids =
     (if completes B ids
      then Inr (layoutOf (computeLayout B S ids),
                concat (map (\<lambda>k. slotWarnings k (length (routed B S ids k)))
                          (keyOrder (occupiedSlots B S ids))))
      else Inl TypeError)"
  proof (cases "completes B ids")
    case True
    then have "warningsOf (computeLayout B S ids) =
        concat (map (\<lambda>k. slotWarnings k (length (routed B S ids k)))
                  (keyOrder (occupiedSlots B S ids)))"
      by (simp add: computeLayout_outcomes warningsOf_def slotOutcome_warnings)
    with computeLayout_Inr [OF True, of S] True show ?thesis by simp
  next
    case False
    then show ?thesis by (simp add: computeLayout_outcomes)
  qed
  show "distinct (keyOrder (occupiedSlots B S ids))"
    by (simp add: distinct_keyOrder distinct_occupiedSlots)
  show "\<forall>k. length (slotWarnings k (length (routed B S ids k))) \<le> 1"
    using length_slotWarnings by blast
  show "(\<forall>k\<in>set (occupiedSlots B S ids). \<not> isArrayIndex k) \<longrightarrow>
        keyOrder (occupiedSlots B S ids) = occupiedSlots B S ids"
    using keyOrder_plain [of "occupiedSlots B S ids"] by blast
qed

text \<open>
  Two ranks and four service badges: the rank slot occurs first and warns first.
\<close>

theorem warnings_in_iteration_order_witness:
  "completes sampleBadges [''sergeant'', ''a'', ''b'', ''corporal'', ''c'', ''d'']
   \<and> list_all (\<lambda>k. \<not> isArrayIndex k)
       (occupiedSlots sampleBadges sampleSlots [''sergeant'', ''a'', ''b'', ''corporal'', ''c'', ''d''])
   \<and> occupiedSlots sampleBadges sampleSlots [''sergeant'', ''a'', ''b'', ''corporal'', ''c'', ''d''] =
       [''leftSleeveRank'', ''safBadges'']
   \<and> warningsOf (computeLayout sampleBadges sampleSlots
        [''sergeant'', ''a'', ''b'', ''corporal'', ''c'', ''d'']) =
       [''leftSleeveRank: multiple selections; only first shown.'',
        ''safBadges allows max 3; extra selections ignored.'']"
proof -
  let ?ids = "[''sergeant'', ''a'', ''b'', ''corporal'', ''c'', ''d'']"
  have c: "completes sampleBadges ?ids" by code_simp
  have plain: "list_all (\<lambda>k. \<not> isArrayIndex k) (occupiedSlots sampleBadges sampleSlots ?ids)"
    by code_simp
  have occ: "occupiedSlots sampleBadges sampleSlots ?ids = [''leftSleeveRank'', ''safBadges'']"
    by code_simp
  have each: "concat (map (\<lambda>k. slotWarnings k (length (routed sampleBadges sampleSlots ?ids k)))
                 [''leftSleeveRank'', ''safBadges'']) =
       [''leftSleeveRank: multiple selections; only first shown.'',
        ''safBadges allows max 3; extra selections ignored.'']"
    by code_simp
  from plain have p: "\<forall>k\<in>set (occupiedSlots sampleBadges sampleSlots ?ids). \<not> isArrayIndex k"
    by (simp add: list_all_iff)
  from warnings_in_iteration_order [of sampleBadges sampleSlots ?ids]
  have run: "computeLayout sampleBadges sampleSlots ?ids =
     (if completes sampleBadges ?ids
      then Inr (layoutOf (computeLayout sampleBadges sampleSlots ?ids),
                concat (map (\<lambda>k. slotWarnings k (length (routed sampleBadges sampleSlots ?ids k)))
                          (keyOrder (occupiedSlots sampleBadges sampleSlots ?ids))))
      else Inl TypeError)"
    and order: "(\<forall>k\<in>set (occupiedSlots sampleBadges sampleSlots ?ids). \<not> isArrayIndex k) \<longrightarrow>
                keyOrder (occupiedSlots sampleBadges sampleSlots ?ids) =
                occupiedSlots sampleBadges sampleSlots ?ids"
    by blast+
  from order p occ have ko: "keyOrder (occupiedSlots sampleBadges sampleSlots ?ids) =
      [''leftSleeveRank'', ''safBadges'']" by simp
  from run c have "computeLayout sampleBadges sampleSlots ?ids =
      Inr (layoutOf (computeLayout sampleBadges sampleSlots ?ids),
           concat (map (\<lambda>k. slotWarnings k (length (routed sampleBadges sampleSlots ?ids k)))
                (keyOrder (occupiedSlots sampleBadges sampleSlots ?ids))))"
    by simp
  then have "warningsOf (computeLayout sampleBadges sampleSlots ?ids) =
      concat (map (\<lambda>k. slotWarnings k (length (routed sampleBadges sampleSlots ?ids k)))
                (keyOrder (occupiedSlots sampleBadges sampleSlots ?ids)))"
    by (rule arg_cong [where f = warningsOf, THEN trans]) (simp add: warningsOf_def)
  with ko each have "warningsOf (computeLayout sampleBadges sampleSlots ?ids) =
       [''leftSleeveRank: multiple selections; only first shown.'',
        ''safBadges allows max 3; extra selections ignored.'']"
    by simp
  with c plain occ show ?thesis by (intro conjI)
qed

text \<open>
  Claim C8 as the specification words it fails when slot identifiers are numerals. The
  slot \<^verbatim>\<open>10\<close> occurs first in the selection and the slot \<^verbatim>\<open>2\<close> second, and each receives
  two items; the warning of slot \<^verbatim>\<open>2\<close> comes first.
\<close>

theorem warnings_order_counterexample:
  "completes numberedBadges [''t1'', ''u1'', ''t2'', ''u2'']
   \<and> occupiedSlots numberedBadges numberedSlots [''t1'', ''u1'', ''t2'', ''u2''] = [''10'', ''2'']
   \<and> concat (map (\<lambda>k. slotWarnings k
                 (length (routed numberedBadges numberedSlots [''t1'', ''u1'', ''t2'', ''u2''] k)))
         (occupiedSlots numberedBadges numberedSlots [''t1'', ''u1'', ''t2'', ''u2''])) =
       [''10: multiple selections; only first shown.'',
        ''2: multiple selections; only first shown.'']
   \<and> computeLayout numberedBadges numberedSlots [''t1'', ''u1'', ''t2'', ''u2''] =
       Inr (layoutOf (computeLayout numberedBadges numberedSlots [''t1'', ''u1'', ''t2'', ''u2'']),
            [''2: multiple selections; only first shown.'',
             ''10: multiple selections; only first shown.''])"
  by code_simp

text \<open>
  Claim C9 fails in the code when the selection also holds an item whose slot identifier
  is an inherited name. The medal \<open>x\<close> occurs twice, so two placements are due; the item
  \<open>odd\<close> has the slot \<^verbatim>\<open>toString\<close>, on which line 248 throws, and the run produces no
  placement at all. Without \<open>odd\<close> the medal is placed twice. Lemma
  \<open>repeated_identifiers_placed_each_time\<close> states the claim for the selections on which
  the run completes.
\<close>

theorem repeated_identifier_lost_by_inherited_slot_name:
  "count_list [''x'', ''x'', ''odd''] ''x'' = 2
   \<and> sampleBadges ''x'' = Some (sampleBadge ''X'' ''medal'' ''medalsBelowRightPocket'' ''#b45309'')
   \<and> computeLayout sampleBadges sampleSlots [''x'', ''x'', ''odd''] = Inl TypeError
   \<and> map p_id (layoutOf (computeLayout sampleBadges sampleSlots [''x'', ''x''])) = [''x'', ''x'']"
  by code_simp

end
